theory Spec2Isabelle
  imports Main "HOL-Library.Word" "HOL-Library.Sublist"
begin

unbundle bit_operations_syntax

section \<open>Python strings\<close>

text \<open>
  A Python \<open>str\<close> is a sequence of Unicode code points, and \<open>len\<close>, \<open>strip\<close>,
  \<open>splitlines\<close> and \<open>in\<close> all work on code points. The keyword list and the notification
  label of \<open>tax_watch.py\<close> are Korean, so a string is modelled as the list of its code
  points (natural numbers below \<open>0x110000\<close>) rather than as a list of 8-bit characters.
\<close>

type_synonym pystr = "nat list"

definition ascii :: "string \<Rightarrow> pystr" where
  "ascii s = map of_char s"

text \<open>
  The code points for which \<open>str.isspace\<close> holds; \<open>str.strip()\<close>, \<open>str.rstrip()\<close> with no
  argument remove exactly these.
\<close>

definition isspace :: "nat \<Rightarrow> bool" where
  "isspace c \<longleftrightarrow>
     (9 \<le> c \<and> c \<le> 13) \<or> (28 \<le> c \<and> c \<le> 32) \<or> c = 0x85 \<or> c = 0xA0 \<or> c = 0x1680 \<or>
     (0x2000 \<le> c \<and> c \<le> 0x200A) \<or> c = 0x2028 \<or> c = 0x2029 \<or> c = 0x202F \<or>
     c = 0x205F \<or> c = 0x3000"

definition lstrip :: "pystr \<Rightarrow> pystr" where
  "lstrip s = dropWhile isspace s"

definition rstrip :: "pystr \<Rightarrow> pystr" where
  "rstrip s = rev (dropWhile isspace (rev s))"

definition strip :: "pystr \<Rightarrow> pystr" where
  "strip s = rstrip (lstrip s)"

text \<open>\<open>s.rstrip(chars)\<close> with a one-character argument, as in \<open>NTFY_URL.rstrip('/')\<close>.\<close>

definition rstrip_char :: "nat \<Rightarrow> pystr \<Rightarrow> pystr" where
  "rstrip_char c s = rev (dropWhile (\<lambda>x. x = c) (rev s))"

text \<open>\<open>sub in s\<close> on strings: \<open>sub\<close> occurs as a contiguous block of \<open>s\<close>.\<close>

fun startswith :: "pystr \<Rightarrow> pystr \<Rightarrow> bool" where
  "startswith s [] = True"
| "startswith [] (p # ps) = False"
| "startswith (c # cs) (p # ps) = (c = p \<and> startswith cs ps)"

fun contains :: "pystr \<Rightarrow> pystr \<Rightarrow> bool" where
  "contains [] sub = (sub = [])"
| "contains (c # cs) sub = (startswith (c # cs) sub \<or> contains cs sub)"

text \<open>\<open>str(i)\<close> for a non-negative integer: its decimal digits.\<close>

fun str_nat :: "nat \<Rightarrow> pystr" where
  "str_nat n = (if n < 10 then [48 + n] else str_nat (n div 10) @ [48 + n mod 10])"

declare str_nat.simps [simp del]

section \<open>Exceptions\<close>

text \<open>
  Every \<open>raise\<close> of the program and of the libraries it calls is a value. \<open>LibraryError\<close>
  stands for any exception (a subclass of \<open>Exception\<close>) that \<open>requests\<close>, \<open>feedparser\<close>,
  \<open>bs4\<close>, \<open>urllib\<close> or \<open>json\<close> raises; the number tells such exceptions apart.
\<close>

datatype exn =
    TypeError | UnicodeEncodeError | HTTPError | JSONDecodeError | LibraryError nat

section \<open>UTF-8 and SHA-256\<close>

type_synonym byte = "8 word"
type_synonym u32 = "32 word"

text \<open>
  \<open>str.encode("utf-8")\<close>: one to four bytes per code point. The codec is strict: a
  surrogate code point (\<open>0xD800\<close> to \<open>0xDFFF\<close>) raises \<open>UnicodeEncodeError\<close>.
\<close>

definition utf8_char :: "nat \<Rightarrow> exn + byte list" where
  "utf8_char c =
     (if c < 0x80 then Inr [of_nat c]
      else if c < 0x800 then Inr [of_nat (0xC0 + c div 64), of_nat (0x80 + c mod 64)]
      else if 0xD800 \<le> c \<and> c \<le> 0xDFFF then Inl UnicodeEncodeError
      else if c < 0x10000 then
        Inr [of_nat (0xE0 + c div 4096), of_nat (0x80 + c div 64 mod 64),
             of_nat (0x80 + c mod 64)]
      else
        Inr [of_nat (0xF0 + c div 262144), of_nat (0x80 + c div 4096 mod 64),
             of_nat (0x80 + c div 64 mod 64), of_nat (0x80 + c mod 64)])"

fun utf8_encode :: "pystr \<Rightarrow> exn + byte list" where
  "utf8_encode [] = Inr []"
| "utf8_encode (c # cs) =
     (case utf8_char c of
        Inl e \<Rightarrow> Inl e
      | Inr bs \<Rightarrow> (case utf8_encode cs of Inl e \<Rightarrow> Inl e | Inr rest \<Rightarrow> Inr (bs @ rest)))"

text \<open>
  SHA-256 as in FIPS 180-4, which is what \<open>hashlib.sha256\<close> computes. The round constants
  and the initial hash value are written in decimal.
\<close>

definition rotr :: "nat \<Rightarrow> u32 \<Rightarrow> u32" where
  "rotr n x = drop_bit n x OR push_bit (32 - n) x"

definition Ch :: "u32 \<Rightarrow> u32 \<Rightarrow> u32 \<Rightarrow> u32" where
  "Ch x y z = (x AND y) XOR (NOT x AND z)"

definition Maj :: "u32 \<Rightarrow> u32 \<Rightarrow> u32 \<Rightarrow> u32" where
  "Maj x y z = (x AND y) XOR (x AND z) XOR (y AND z)"

definition bsig0 :: "u32 \<Rightarrow> u32" where
  "bsig0 x = rotr 2 x XOR rotr 13 x XOR rotr 22 x"

definition bsig1 :: "u32 \<Rightarrow> u32" where
  "bsig1 x = rotr 6 x XOR rotr 11 x XOR rotr 25 x"

definition ssig0 :: "u32 \<Rightarrow> u32" where
  "ssig0 x = rotr 7 x XOR rotr 18 x XOR drop_bit 3 x"

definition ssig1 :: "u32 \<Rightarrow> u32" where
  "ssig1 x = rotr 17 x XOR rotr 19 x XOR drop_bit 10 x"

definition sha256_K :: "u32 list" where
  "sha256_K =
    [1116352408, 1899447441, 3049323471, 3921009573, 961987163, 1508970993, 2453635748, 2870763221,
     3624381080, 310598401, 607225278, 1426881987, 1925078388, 2162078206, 2614888103, 3248222580,
     3835390401, 4022224774, 264347078, 604807628, 770255983, 1249150122, 1555081692, 1996064986,
     2554220882, 2821834349, 2952996808, 3210313671, 3336571891, 3584528711, 113926993, 338241895,
     666307205, 773529912, 1294757372, 1396182291, 1695183700, 1986661051, 2177026350, 2456956037,
     2730485921, 2820302411, 3259730800, 3345764771, 3516065817, 3600352804, 4094571909, 275423344,
     430227734, 506948616, 659060556, 883997877, 958139571, 1322822218, 1537002063, 1747873779,
     1955562222, 2024104815, 2227730452, 2361852424, 2428436474, 2756734187, 3204031479, 3329325298]"

type_synonym sha_state = "u32 \<times> u32 \<times> u32 \<times> u32 \<times> u32 \<times> u32 \<times> u32 \<times> u32"

definition sha256_init :: sha_state where
  "sha256_init =
    (1779033703, 3144134277, 1013904242, 2773480762, 1359893119, 2600822924, 528734635, 1541459225)"

definition sha256_pad :: "byte list \<Rightarrow> byte list" where
  "sha256_pad m =
     m @ [0x80] @ replicate ((64 - (length m + 9) mod 64) mod 64) 0 @
     map (\<lambda>i. ucast (drop_bit (8 * i) (of_nat (8 * length m) :: 64 word)))
       [7, 6, 5, 4, 3, 2, 1, 0]"

fun be_words :: "byte list \<Rightarrow> u32 list" where
  "be_words (a # b # c # d # bs) =
     (push_bit 24 (ucast a) OR push_bit 16 (ucast b) OR push_bit 8 (ucast c) OR ucast d) #
     be_words bs"
| "be_words bs = []"

fun msg_schedule :: "nat \<Rightarrow> u32 list \<Rightarrow> u32 list" where
  "msg_schedule 0 w = w"
| "msg_schedule (Suc n) w =
     msg_schedule n
       (w @ [ssig1 (w ! (length w - 2)) + w ! (length w - 7) +
             ssig0 (w ! (length w - 15)) + w ! (length w - 16)])"

fun sha256_round :: "u32 \<times> u32 \<Rightarrow> sha_state \<Rightarrow> sha_state" where
  "sha256_round (k, w) (a, b, c, d, e, f, g, h) =
     (let t1 = h + bsig1 e + Ch e f g + k + w;
          t2 = bsig0 a + Maj a b c
      in (t1 + t2, a, b, c, d + t1, e, f, g))"

fun sha_add :: "sha_state \<Rightarrow> sha_state \<Rightarrow> sha_state" where
  "sha_add (a, b, c, d, e, f, g, h) (a', b', c', d', e', f', g', h') =
     (a + a', b + b', c + c', d + d', e + e', f + f', g + g', h + h')"

definition sha256_compress :: "sha_state \<Rightarrow> byte list \<Rightarrow> sha_state" where
  "sha256_compress H block =
     sha_add H (fold sha256_round (zip sha256_K (msg_schedule 48 (be_words block))) H)"

function sha256_blocks :: "sha_state \<Rightarrow> byte list \<Rightarrow> sha_state" where
  "sha256_blocks H bs =
     (if length bs < 64 then H
      else sha256_blocks (sha256_compress H (take 64 bs)) (drop 64 bs))"
  by pat_completeness auto
termination
  by (relation "measure (\<lambda>(H, bs). length bs)") auto

declare sha256_blocks.simps [simp del]

definition hexdigit :: "nat \<Rightarrow> nat" where
  "hexdigit n = (if n < 10 then 48 + n else 87 + n)"

definition hex32 :: "u32 \<Rightarrow> pystr" where
  "hex32 w = map (\<lambda>i. hexdigit (unat (drop_bit (4 * i) w AND 15))) [7, 6, 5, 4, 3, 2, 1, 0]"

fun hex_of_state :: "sha_state \<Rightarrow> pystr" where
  "hex_of_state (a, b, c, d, e, f, g, h) =
     hex32 a @ hex32 b @ hex32 c @ hex32 d @ hex32 e @ hex32 f @ hex32 g @ hex32 h"

definition sha256_hexdigest :: "byte list \<Rightarrow> pystr" where
  "sha256_hexdigest m = hex_of_state (sha256_blocks sha256_init (sha256_pad m))"

section \<open>Identity of an item\<close>

text \<open>
  \<^verbatim>\<open>
  def make_id(title,url):
      h=hashlib.sha256(); h.update((title.strip()+"|"+url.strip()).encode("utf-8"))
      return h.hexdigest()[:16]
  \<close>
  \<open>hashed_text\<close> is the text that is encoded and hashed.
\<close>

definition hashed_text :: "pystr \<Rightarrow> pystr \<Rightarrow> pystr" where
  "hashed_text title url = strip title @ [0x7C] @ strip url"

definition make_id :: "pystr \<Rightarrow> pystr \<Rightarrow> exn + pystr" where
  "make_id title url =
     (case utf8_encode (hashed_text title url) of
        Inl e \<Rightarrow> Inl e
      | Inr bs \<Rightarrow> Inr (take 16 (sha256_hexdigest bs)))"

section \<open>Configuration\<close>

text \<open>
  The settings read from the process environment when the module is loaded.
  \<open>MAX_ITEMS_PER_SOURCE\<close> is \<open>int(os.environ.get(...))\<close>: any integer, also a negative one.
\<close>

record config =
  NTFY_URL :: pystr
  NTFY_TOPIC :: "pystr option"
  STATE_FILE :: pystr
  MAX_ITEMS_PER_SOURCE :: int

record source =
  s_name :: pystr
  s_type :: pystr
  s_url :: pystr
  s_item_selector :: "pystr option"
  s_base :: "pystr option"

definition KEYWORDS :: "pystr list" where
  "KEYWORDS =
     [[0xC138, 0xBC95],
      [0xAC1C, 0xC815],
      [0xACE0, 0xC2DC],
      [0xBCF4, 0xB3C4, 0xC790, 0xB8CC],
      [0xC608, 0xADDC],
      [0xD574, 0xC11D],
      [0xC0AC, 0xC804, 0xB2F5, 0xBCC0],
      [0xD310, 0xB840],
      [0xBC95, 0xC778, 0xC138],
      [0xBD80, 0xAC00, 0xC138],
      [0xBD80, 0xAC00, 0xAC00, 0xCE58, 0xC138],
      [0xC18C, 0xB4DD, 0xC138],
      [0xC6D0, 0xCC9C, 0xC138],
      [0xC9C0, 0xBC29, 0xC138],
      [0xAC10, 0xBA74],
      [0xACF5, 0xC81C],
      [0xAC00, 0xC0B0, 0xC138],
      [0xC804, 0xC790, 0xC2E0, 0xACE0],
      [0xC5F0, 0xB9D0, 0xC815, 0xC0B0],
      ascii ''transfer pricing'',
      ascii ''withholding'',
      ascii ''international tax'']"

definition SOURCES :: "source list" where
  "SOURCES =
    [\<lparr>s_name = [0xAE30, 0xC7AC, 0xBD80, 0x5F, 0xBCF4, 0xB3C4, 0xC790, 0xB8CC] @ ascii ''(RSS)'',
      s_type = ascii ''rss'',
      s_url = ascii ''https://www.moef.go.kr/feeds/news_release.xml'',
      s_item_selector = None,
      s_base = None\<rparr>,
     \<lparr>s_name = [0xAD6D, 0xC138, 0xCCAD, 0x5F, 0xBCF4, 0xB3C4, 0xC790, 0xB8CC],
      s_type = ascii ''html'',
      s_url = ascii ''https://www.nts.go.kr/nts/cm/cntnts/cntntsView.do?mi=11931'',
      s_item_selector = Some (ascii ''div.bbsList li a''),
      s_base = Some (ascii ''https://www.nts.go.kr'')\<rparr>,
     \<lparr>s_name = [0xAD6D, 0xC138, 0xCCAD, 0x5F, 0xACF5, 0xC9C0, 0xC0AC, 0xD56D],
      s_type = ascii ''html'',
      s_url = ascii ''https://www.nts.go.kr/nts/cm/cntnts/cntntsList.do?mi=11932'',
      s_item_selector = Some (ascii ''div.bbsList li a''),
      s_base = Some (ascii ''https://www.nts.go.kr'')\<rparr>,
     \<lparr>s_name = [0xBC95, 0xC81C, 0xCC98, 0x5F, 0xCD5C, 0xADFC, 0xACF5, 0xD3EC, 0xBC95, 0xB839],
      s_type = ascii ''html'',
      s_url = ascii ''https://www.law.go.kr/LSW/lsInfoP.do?lsiSeq=&lsId=&efYd=&chrClsCd='',
      s_item_selector = Some (ascii ''a''),
      s_base = Some (ascii ''https://www.law.go.kr'')\<rparr>,
     \<lparr>s_name = [0xBC95, 0xC81C, 0xCC98, 0x5F, 0xC785, 0xBC95, 0xC608, 0xACE0] @ ascii ''(RSS)'',
      s_type = ascii ''rss'',
      s_url = ascii ''https://open.moleg.go.kr/data/xml/li_rssSH01.xml'',
      s_item_selector = None,
      s_base = None\<rparr>,
     \<lparr>s_name = [0xAE30, 0xC7AC, 0xBD80, 0x5F, 0xC785, 0xBC95, 0xB7, 0xD589, 0xC815, 0xC608, 0xACE0],
      s_type = ascii ''html'',
      s_url = ascii ''https://www.moef.go.kr/lw/lap/TbPrvntcList.do?bbsId=MOSFBBS_000000000055&menuNo=7050300'',
      s_item_selector = Some (ascii ''table a, .bbsList a, a[href*='' @ [0x27] @ ascii ''TbPrvntcView'' @ [0x27, 0x5D]),
      s_base = Some (ascii ''https://www.moef.go.kr'')\<rparr>]"

text \<open>\<open>xs[:n]\<close>: a negative \<open>n\<close> counts from the end.\<close>

definition py_take :: "int \<Rightarrow> 'a list \<Rightarrow> 'a list" where
  "py_take n xs = (if 0 \<le> n then take (nat n) xs else take (length xs - nat (- n)) xs)"

section \<open>The world outside the program\<close>

text \<open>
  What a run does to its surroundings is recorded in a \<open>world\<close>: the calls it has made, in
  order, and the state file. Calls of \<open>match_keywords\<close> are recorded too, so that "no
  relevance check was made" is a statement about the record of calls.
\<close>

datatype log_line =
    TopicNotSet
  | PushFailed exn
  | SourceError pystr exn
  | NoNewUpdates

datatype event =
    EvFeedParse pystr
  | EvGetListing pystr
  | EvGetBody pystr
  | EvMatchKeywords pystr
  | EvPost pystr pystr "byte list"
  | EvPrint log_line

text \<open>
  The state file is a JSON object. \<open>sent_ids\<close> is \<open>None\<close> when the object has no such key;
  \<open>other_keys\<close> are the keys the program does not know, which it writes back unchanged.
  \<open>NotJSON\<close> is a file that \<open>json.load\<close> rejects.
\<close>

record pystate =
  sent_ids :: "pystr list option"
  other_keys :: "(pystr \<times> pystr) list"

datatype file_content = NotJSON | JSON pystate

record world =
  events :: "event list"
  state_file :: "file_content option"
  state_dir :: bool

definition log_event :: "event \<Rightarrow> world \<Rightarrow> world" where
  "log_event e w = w\<lparr>events := events w @ [e]\<rparr>"

text \<open>
  The libraries and the network. An answer of the network may depend on everything the
  run has done so far, so each such function takes the record of calls. \<open>lower\<close> is
  \<open>str.lower\<close>, \<open>soup_select\<close> is \<open>BeautifulSoup(text,"html.parser").select(sel)\<close> with each
  element reduced to its \<open>get_text(" ",strip=True)\<close> and its \<open>href\<close> attribute, and
  \<open>soup_get_text\<close> is \<open>BeautifulSoup(text,"html.parser").get_text(" ",strip=True)\<close>.
  \<open>feedparser\<close> tells whether the module could be imported.
\<close>

record response =
  r_ok :: bool
  r_text :: pystr

record anchor =
  a_text :: pystr
  a_href :: "pystr option"

record entry =
  e_title :: "pystr option"
  e_link :: "pystr option"
  e_summary :: "pystr option"
  e_description :: "pystr option"

record env =
  lower :: "pystr \<Rightarrow> pystr"
  urljoin :: "pystr \<Rightarrow> pystr \<Rightarrow> exn + pystr"
  feedparser :: bool
  feedparser_parse :: "event list \<Rightarrow> pystr \<Rightarrow> exn + entry list"
  requests_get :: "event list \<Rightarrow> pystr \<Rightarrow> exn + response"
  requests_post :: "event list \<Rightarrow> pystr \<Rightarrow> pystr \<Rightarrow> byte list \<Rightarrow> exn option"
  soup_select :: "pystr \<Rightarrow> pystr \<Rightarrow> exn + anchor list"
  soup_get_text :: "pystr \<Rightarrow> exn + pystr"
  today :: pystr

section \<open>The state store\<close>

text \<open>
  \<open>os.path.dirname\<close> on a POSIX path: everything up to the last slash, without trailing
  slashes unless it consists of slashes only.
\<close>

definition dirname :: "pystr \<Rightarrow> pystr" where
  "dirname p =
     (let head = rev (dropWhile (\<lambda>c. c \<noteq> 47) (rev p))
      in if head \<noteq> [] \<and> \<not> list_all (\<lambda>c. c = 47) head then rstrip_char 47 head else head)"

text \<open>
  \<^verbatim>\<open>
  def ensure_dir(p):
      d = os.path.dirname(p)
      if d and not os.path.exists(d): os.makedirs(d, exist_ok=True)
  \<close>
  \<open>state_dir\<close> says whether the directory of the state file exists.
\<close>

definition ensure_dir :: "config \<Rightarrow> world \<Rightarrow> world" where
  "ensure_dir cfg w =
     (if dirname (STATE_FILE cfg) \<noteq> [] \<and> \<not> state_dir w then w\<lparr>state_dir := True\<rparr> else w)"

text \<open>
  \<^verbatim>\<open>
  def load_state():
      ensure_dir(STATE_FILE)
      if os.path.exists(STATE_FILE):
          with open(STATE_FILE,"r",encoding="utf-8") as f: return json.load(f)
      return {"sent_ids":[]}

  def save_state(st):
      ensure_dir(STATE_FILE)
      with open(STATE_FILE,"w",encoding="utf-8") as f: json.dump(st,f,ensure_ascii=False,indent=2)
  \<close>
\<close>

definition load_state :: "config \<Rightarrow> world \<Rightarrow> (exn + pystate) \<times> world" where
  "load_state cfg w =
     (let w1 = ensure_dir cfg w
      in case state_file w1 of
           None \<Rightarrow> (Inr \<lparr>sent_ids = Some [], other_keys = []\<rparr>, w1)
         | Some NotJSON \<Rightarrow> (Inl JSONDecodeError, w1)
         | Some (JSON st) \<Rightarrow> (Inr st, w1))"

definition save_state :: "config \<Rightarrow> pystate \<Rightarrow> world \<Rightarrow> world" where
  "save_state cfg st w = (ensure_dir cfg w)\<lparr>state_file := Some (JSON st)\<rparr>"

section \<open>Keywords\<close>

text \<open>
  \<^verbatim>\<open>
  def match_keywords(text):
      if not text: return False
      low=text.lower()
      return any(kw.lower() in low for kw in KEYWORDS)
  \<close>
\<close>

definition match_keywords :: "env \<Rightarrow> pystr \<Rightarrow> bool" where
  "match_keywords env text =
     (if text = [] then False
      else list_ex (\<lambda>kw. contains (lower env text) (lower env kw)) KEYWORDS)"

section \<open>The notification sink\<close>

text \<open>
  \<^verbatim>\<open>
  def send_push(title, body):
      if not NTFY_TOPIC:
          print("NTFY_TOPIC not set; skip"); return
      try:
          requests.post(f"{NTFY_URL.rstrip('/')}/{NTFY_TOPIC}",
                        data=body.encode("utf-8"),
                        headers={"Title": title}, timeout=20)
      except Exception as e:
          print("ntfy push failed:", repr(e))
  \<close>
  The encoding of the body happens inside the \<open>try\<close>, so its failure is caught as well.
\<close>

definition send_push :: "env \<Rightarrow> config \<Rightarrow> pystr \<Rightarrow> pystr \<Rightarrow> world \<Rightarrow> world" where
  "send_push env cfg push_title body w =
     (case NTFY_TOPIC cfg of
        None \<Rightarrow> log_event (EvPrint TopicNotSet) w
      | Some topic \<Rightarrow>
          if topic = [] then log_event (EvPrint TopicNotSet) w
          else
            (let target = rstrip_char 47 (NTFY_URL cfg) @ [47] @ topic
             in case utf8_encode body of
                  Inl e \<Rightarrow> log_event (EvPrint (PushFailed e)) w
                | Inr data \<Rightarrow>
                    (let w1 = log_event (EvPost target push_title data) w
                     in case requests_post env (events w) target push_title data of
                          None \<Rightarrow> w1
                        | Some e \<Rightarrow> log_event (EvPrint (PushFailed e)) w1)))"

section \<open>Source adapters\<close>

record item =
  i_title :: pystr
  i_url :: pystr
  i_summary :: pystr

text \<open>
  \<^verbatim>\<open>
  def strip_html(s):
      import re; return re.sub("<[^<]+?>","",s or "").strip()
  \<close>
  A match of the pattern starts at a \<open><\<close>, takes at least one character other than
  \<open><\<close> and ends at the first \<open>>\<close> after that; \<open>tag_end\<close> looks for that end.
\<close>

fun tag_end :: "pystr \<Rightarrow> pystr option" where
  "tag_end [] = None"
| "tag_end (c # cs) = (if c = 62 then Some cs else if c = 60 then None else tag_end cs)"

text \<open>
  \<open>remove_tags True\<close> is inside a match whose end is known to come and drops characters
  up to that end; \<open>remove_tags False\<close> copies characters and looks for the next match.
\<close>

fun remove_tags :: "bool \<Rightarrow> pystr \<Rightarrow> pystr" where
  "remove_tags inside [] = []"
| "remove_tags True (c # cs) = (if c = 62 then remove_tags False cs else remove_tags True cs)"
| "remove_tags False [c] = [c]"
| "remove_tags False (c # d # cs) =
     (if c = 60 \<and> d \<noteq> 60 \<and> tag_end cs \<noteq> None then remove_tags True cs
      else c # remove_tags False (d # cs))"

definition strip_html :: "pystr \<Rightarrow> pystr" where
  "strip_html s = strip (remove_tags False s)"

text \<open>
  \<^verbatim>\<open>
  def fetch_rss(url):
      if not feedparser: return []
      feed=feedparser.parse(url); out=[]
      for e in feed.entries[:MAX_ITEMS_PER_SOURCE]:
          title=getattr(e,"title","") or ""; link=getattr(e,"link","") or url
          summ=getattr(e,"summary","") or getattr(e,"description","") or ""
          out.append({"title":title,"url":link,"summary":strip_html(summ)})
      return out
  \<close>
\<close>

definition or_else :: "pystr option \<Rightarrow> pystr \<Rightarrow> pystr" where
  "or_else v d = (case v of None \<Rightarrow> d | Some s \<Rightarrow> if s = [] then d else s)"

definition entry_item :: "pystr \<Rightarrow> entry \<Rightarrow> item" where
  "entry_item src_url e =
     \<lparr>i_title = or_else (e_title e) [],
      i_url = or_else (e_link e) src_url,
      i_summary = strip_html (or_else (e_summary e) (or_else (e_description e) []))\<rparr>"

definition fetch_rss :: "env \<Rightarrow> config \<Rightarrow> pystr \<Rightarrow> world \<Rightarrow> (exn + item list) \<times> world" where
  "fetch_rss env cfg src_url w =
     (if \<not> feedparser env then (Inr [], w)
      else
        (let w1 = log_event (EvFeedParse src_url) w
         in case feedparser_parse env (events w) src_url of
              Inl e \<Rightarrow> (Inl e, w1)
            | Inr entries \<Rightarrow>
                (Inr (map (entry_item src_url) (py_take (MAX_ITEMS_PER_SOURCE cfg) entries)), w1)))"

text \<open>
  \<^verbatim>\<open>
  def fetch_html(url, sel="a", base=None):
      r=requests.get(url, headers=HEADERS, timeout=30); r.raise_for_status()
      soup=BeautifulSoup(r.text,"html.parser"); out=[]
      for a in soup.select(sel)[:MAX_ITEMS_PER_SOURCE]:
          t=a.get_text(" ",strip=True); href=a.get("href","")
          if not t or not href: continue
          out.append({"title":t,"url":urljoin(base or url, href),"summary":""})
      # dedup
      uniq={ (x["title"],x["url"]):x for x in out }
      return list(uniq.values())
  \<close>
  A Python \<open>dict\<close> keeps its keys in the order of their first insertion, and storing under
  a key that is present replaces the value where it stands: \<open>dict_set\<close>.
\<close>

fun dict_set :: "'k \<Rightarrow> 'v \<Rightarrow> ('k \<times> 'v) list \<Rightarrow> ('k \<times> 'v) list" where
  "dict_set k v [] = [(k, v)]"
| "dict_set k v ((k', v') # d) =
     (if k' = k then (k', v) # d else (k', v') # dict_set k v d)"

definition uniq_items :: "item list \<Rightarrow> item list" where
  "uniq_items out =
     map snd (fold (\<lambda>x d. dict_set (i_title x, i_url x) x d) out [])"

fun anchor_items :: "env \<Rightarrow> pystr \<Rightarrow> anchor list \<Rightarrow> exn + item list" where
  "anchor_items env b [] = Inr []"
| "anchor_items env b (a # rest) =
     (let t = a_text a; href = (case a_href a of None \<Rightarrow> [] | Some h \<Rightarrow> h)
      in if t = [] \<or> href = [] then anchor_items env b rest
         else
           (case urljoin env b href of
              Inl e \<Rightarrow> Inl e
            | Inr u \<Rightarrow>
                (case anchor_items env b rest of
                   Inl e \<Rightarrow> Inl e
                 | Inr out \<Rightarrow> Inr (\<lparr>i_title = t, i_url = u, i_summary = []\<rparr> # out))))"

definition fetch_html ::
  "env \<Rightarrow> config \<Rightarrow> pystr \<Rightarrow> pystr \<Rightarrow> pystr option \<Rightarrow> world \<Rightarrow> (exn + item list) \<times> world" where
  "fetch_html env cfg src_url sel base w =
     (let w1 = log_event (EvGetListing src_url) w
      in case requests_get env (events w) src_url of
           Inl e \<Rightarrow> (Inl e, w1)
         | Inr r \<Rightarrow>
             if \<not> r_ok r then (Inl HTTPError, w1)
             else
               (case soup_select env (r_text r) sel of
                  Inl e \<Rightarrow> (Inl e, w1)
                | Inr anchors \<Rightarrow>
                    (case anchor_items env (or_else base src_url)
                            (py_take (MAX_ITEMS_PER_SOURCE cfg) anchors) of
                       Inl e \<Rightarrow> (Inl e, w1)
                     | Inr out \<Rightarrow> (Inr (uniq_items out), w1))))"

text \<open>
  \<^verbatim>\<open>
  def fetch_source(src):
      return fetch_rss(src["url"]) if src["type"]=="rss" else \
             fetch_html(src["url"], src.get("item_selector","a"), src.get("base"))
  \<close>
\<close>

definition fetch_source :: "env \<Rightarrow> config \<Rightarrow> source \<Rightarrow> world \<Rightarrow> (exn + item list) \<times> world" where
  "fetch_source env cfg src w =
     (if s_type src = ascii ''rss'' then fetch_rss env cfg (s_url src) w
      else fetch_html env cfg (s_url src)
             (case s_item_selector src of None \<Rightarrow> ascii ''a'' | Some sel \<Rightarrow> sel)
             (s_base src) w)"

section \<open>Chunking the digest\<close>

text \<open>
  \<open>str.splitlines()\<close>: a line ends at a line feed, vertical tab, form feed, carriage
  return, file, group or record separator, next line, line separator or paragraph
  separator; a carriage return followed by a line feed is one line end. The line ends are
  not part of the lines, and a text that stops right after a line end has no empty last line.
\<close>

definition is_linebreak :: "nat \<Rightarrow> bool" where
  "is_linebreak c \<longleftrightarrow>
     (10 \<le> c \<and> c \<le> 13) \<or> (28 \<le> c \<and> c \<le> 30) \<or> c = 0x85 \<or> c = 0x2028 \<or> c = 0x2029"

fun splitlines :: "pystr \<Rightarrow> pystr list" where
  "splitlines [] = []"
| "splitlines [c] = (if is_linebreak c then [[]] else [[c]])"
| "splitlines (c # d # cs) =
     (if c = 13 \<and> d = 10 then [] # splitlines cs
      else if is_linebreak c then [] # splitlines (d # cs)
      else (case splitlines (d # cs) of [] \<Rightarrow> [[c]] | l # ls \<Rightarrow> (c # l) # ls))"

text \<open>
  \<^verbatim>\<open>
  def chunk(s, maxlen=1500):
      lines=(s or "").splitlines(); cur=""; out=[]
      for line in lines:
          add=line+"\n"
          if len(cur)+len(add)>maxlen and cur:
              out.append(cur.rstrip()); cur=add
          else: cur+=add
      if cur: out.append(cur.rstrip())
      return out or ["(empty)"]
  \<close>
  \<open>chunk_loop\<close> is the \<open>for\<close> loop, with \<open>cur\<close> and \<open>out\<close> as its state.
\<close>

fun chunk_loop :: "int \<Rightarrow> pystr list \<Rightarrow> pystr \<Rightarrow> pystr list \<Rightarrow> pystr \<times> pystr list" where
  "chunk_loop maxlen [] cur out = (cur, out)"
| "chunk_loop maxlen (line # lines) cur out =
     (let add = line @ [10]
      in if int (length cur + length add) > maxlen \<and> cur \<noteq> []
         then chunk_loop maxlen lines add (out @ [rstrip cur])
         else chunk_loop maxlen lines (cur @ add) out)"

definition chunk :: "pystr \<Rightarrow> int \<Rightarrow> pystr list" where
  "chunk s maxlen =
     (case chunk_loop maxlen (splitlines s) [] [] of
        (cur, out) \<Rightarrow>
          (let out1 = (if cur \<noteq> [] then out @ [rstrip cur] else out)
           in if out1 = [] then [ascii ''(empty)''] else out1))"

section \<open>The run\<close>

record hit =
  h_id :: pystr
  h_title :: pystr
  h_url :: pystr
  h_src :: pystr

text \<open>
  The secondary check of an item whose title matches no keyword:
  \<^verbatim>\<open>
  try:
      rt=requests.get(it["url"], headers=HEADERS, timeout=30)
      if rt.ok:
          body=BeautifulSoup(rt.text,"html.parser").get_text(" ",strip=True)
          ok=match_keywords(body)
  except Exception: pass
  \<close>
  It yields the new value of \<open>ok\<close>, which was \<open>False\<close> before.
\<close>

definition check_body :: "env \<Rightarrow> item \<Rightarrow> world \<Rightarrow> bool \<times> world" where
  "check_body env it w =
     (let w1 = log_event (EvGetBody (i_url it)) w
      in case requests_get env (events w) (i_url it) of
           Inl e \<Rightarrow> (False, w1)
         | Inr rt \<Rightarrow>
             if r_ok rt then
               (case soup_get_text env (r_text rt) of
                  Inl e \<Rightarrow> (False, w1)
                | Inr body \<Rightarrow> (match_keywords env body, log_event (EvMatchKeywords body) w1))
             else (False, w1))"

text \<open>
  The body of the loop over the items of one source:
  \<^verbatim>\<open>
  iid=make_id(it["title"], it["url"])
  if iid in sent: continue
  ok=match_keywords(it["title"])
  if not ok:
      (the secondary check)
  if ok:
      hits.append({"id":iid,"title":it["title"],"url":it["url"],"src":src["name"]})
  \<close>
  The first component of the result is the exception that leaves the loop, if any.
\<close>

definition process_item ::
  "env \<Rightarrow> pystr list \<Rightarrow> pystr \<Rightarrow> item \<Rightarrow> hit list \<times> world \<Rightarrow> exn option \<times> hit list \<times> world" where
  "process_item env sent src_name it hw =
     (case hw of
        (hits, w) \<Rightarrow>
          (case make_id (i_title it) (i_url it) of
             Inl e \<Rightarrow> (Some e, hits, w)
           | Inr iid \<Rightarrow>
               if iid \<in> set sent then (None, hits, w)
               else
                 (let ok = match_keywords env (i_title it);
                      w1 = log_event (EvMatchKeywords (i_title it)) w;
                      (ok2, w2) = (if \<not> ok then check_body env it w1 else (ok, w1))
                  in if ok2 then
                       (None,
                        hits @ [\<lparr>h_id = iid, h_title = i_title it, h_url = i_url it,
                                 h_src = src_name\<rparr>],
                        w2)
                     else (None, hits, w2))))"

fun process_items ::
  "env \<Rightarrow> pystr list \<Rightarrow> pystr \<Rightarrow> item list \<Rightarrow> hit list \<times> world \<Rightarrow> exn option \<times> hit list \<times> world" where
  "process_items env sent src_name [] hw = (None, hw)"
| "process_items env sent src_name (it # its) hw =
     (case process_item env sent src_name it hw of
        (Some e, hw1) \<Rightarrow> (Some e, hw1)
      | (None, hw1) \<Rightarrow> process_items env sent src_name its hw1)"

text \<open>
  One turn of the loop over the sources:
  \<^verbatim>\<open>
  try:
      for it in fetch_source(src):
          (the loop body above)
  except Exception as e:
      print("source error:", src["name"], repr(e))
  \<close>
  Hits appended before an exception stay in \<open>hits\<close>.
\<close>

definition poll_source ::
  "env \<Rightarrow> config \<Rightarrow> pystr list \<Rightarrow> source \<Rightarrow> hit list \<times> world \<Rightarrow> hit list \<times> world" where
  "poll_source env cfg sent src hw =
     (case hw of
        (hits, w) \<Rightarrow>
          (case fetch_source env cfg src w of
             (Inl e, w1) \<Rightarrow> (hits, log_event (EvPrint (SourceError (s_name src) e)) w1)
           | (Inr its, w1) \<Rightarrow>
               (case process_items env sent (s_name src) its (hits, w1) of
                  (Some e, hits2, w2) \<Rightarrow>
                    (hits2, log_event (EvPrint (SourceError (s_name src) e)) w2)
                | (None, hits2, w2) \<Rightarrow> (hits2, w2))))"

fun poll_sources ::
  "env \<Rightarrow> config \<Rightarrow> pystr list \<Rightarrow> source list \<Rightarrow> hit list \<times> world \<Rightarrow> hit list \<times> world" where
  "poll_sources env cfg sent [] hw = hw"
| "poll_sources env cfg sent (src # srcs) hw =
     poll_sources env cfg sent srcs (poll_source env cfg sent src hw)"

text \<open>
  The digest. \<open>textwrap.shorten\<close> is declared \<open>def shorten(text, width, **kwargs)\<close>: it has
  two positional parameters. The program calls it with three positional arguments,
  \<open>textwrap.shorten(h['title'],200,'...')\<close> with the ellipsis character as the third (the
  placeholder would have to be passed by keyword), and Python answers such a call with
  \<open>TypeError: shorten() takes 2 positional arguments but 3 were given\<close>.
  \<open>textwrap_shorten3\<close> is that call.
\<close>

definition textwrap_shorten3 :: "pystr \<Rightarrow> int \<Rightarrow> pystr \<Rightarrow> exn + pystr" where
  "textwrap_shorten3 text width third = Inl TypeError"

text \<open>
  \<^verbatim>\<open>
  lines=[f"* ({h['src']}) {textwrap.shorten(h['title'],200,'...')}\n{h['url']}" for h in top]
  \<close>
  (with a bullet and an ellipsis character where this text has \<open>*\<close> and \<open>...\<close>).
\<close>

definition digest_line :: "hit \<Rightarrow> exn + pystr" where
  "digest_line h =
     (case textwrap_shorten3 (h_title h) 200 [0x2026] of
        Inl e \<Rightarrow> Inl e
      | Inr short \<Rightarrow> Inr ([0x2022, 32, 40] @ h_src h @ [41, 32] @ short @ [10] @ h_url h))"

fun digest_lines :: "hit list \<Rightarrow> exn + pystr list" where
  "digest_lines [] = Inr []"
| "digest_lines (h # hs) =
     (case digest_line h of
        Inl e \<Rightarrow> Inl e
      | Inr l \<Rightarrow> (case digest_lines hs of Inl e \<Rightarrow> Inl e | Inr ls \<Rightarrow> Inr (l # ls)))"

fun py_join :: "pystr \<Rightarrow> pystr list \<Rightarrow> pystr" where
  "py_join sep [] = []"
| "py_join sep [x] = x"
| "py_join sep (x # y # xs) = x @ sep @ py_join sep (y # xs)"

text \<open>
  \<^verbatim>\<open>
  for i, ch in enumerate(chunk(body),1):
      title = f"{today} <label>" + ("" if i==1 and len(body)<=1500 else f" ({i})")
      send_push(title, ch)
  \<close>
  where the label is the Korean for "tax law / notice update".
\<close>

definition update_label :: pystr where
  "update_label =
     [0x20, 0xC138, 0xBC95, 0x2F, 0xACF5, 0xC9C0, 0x20, 0xC5C5, 0xB370, 0xC774, 0xD2B8]"

definition chunk_title :: "pystr \<Rightarrow> pystr \<Rightarrow> nat \<Rightarrow> pystr" where
  "chunk_title day body i =
     day @ update_label @
     (if i = 1 \<and> length body \<le> 1500 then [] else [32, 40] @ str_nat i @ [41])"

fun push_chunks :: "env \<Rightarrow> config \<Rightarrow> pystr \<Rightarrow> nat \<Rightarrow> pystr list \<Rightarrow> world \<Rightarrow> world" where
  "push_chunks env cfg body i [] w = w"
| "push_chunks env cfg body i (ch # chs) w =
     push_chunks env cfg body (Suc i) chs
       (send_push env cfg (chunk_title (today env) body i) ch w)"

text \<open>
  The rest of the branch for a non-empty \<open>hits\<close>, once \<open>lines\<close> has been built:
  \<^verbatim>\<open>
  body="\n\n".join(lines)
  (the loop over the chunks)
  for h in top: sent.add(h["id"])
  state["sent_ids"]=list(sent); save_state(state)
  \<close>
  The set \<open>sent\<close> is a list without repetitions here; the order in which Python lists a
  set is not fixed, and nothing below depends on the order chosen.
\<close>

definition notify_and_commit ::
  "env \<Rightarrow> config \<Rightarrow> pystate \<Rightarrow> pystr list \<Rightarrow> hit list \<Rightarrow> pystr list \<Rightarrow> world \<Rightarrow> world" where
  "notify_and_commit env cfg state sent top_hits lines w =
     (let body = py_join [10, 10] lines;
          w1 = push_chunks env cfg body 1 (chunk body 1500) w;
          sent1 = fold (\<lambda>h s. List.insert (h_id h) s) top_hits sent
      in save_state cfg (state\<lparr>sent_ids := Some sent1\<rparr>) w1)"

text \<open>
  \<^verbatim>\<open>
  def main():
      state=load_state(); sent=set(state.get("sent_ids",[]))
      hits=[]
      for src in SOURCES:
          (one turn, as above)
      if hits:
          today=(datetime.utcnow()+timedelta(hours=9)).strftime("%Y-%m-%d")
          top=hits[:10]
          lines=[...]
          (the rest, as above)
      else:
          print("no new tax updates")
  \<close>
  \<open>run_hits\<close> is the list \<open>hits\<close> when the loop over the sources has ended, with the world
  at that moment. \<open>main\<close> yields the exception that ends the run, if any, and the world it
  leaves behind.
\<close>

definition loaded_sent :: "pystate \<Rightarrow> pystr list" where
  "loaded_sent state = remdups (case sent_ids state of None \<Rightarrow> [] | Some ids \<Rightarrow> ids)"

definition run_hits :: "env \<Rightarrow> config \<Rightarrow> world \<Rightarrow> exn + (hit list \<times> world)" where
  "run_hits env cfg w =
     (case load_state cfg w of
        (Inl e, w1) \<Rightarrow> Inl e
      | (Inr state, w1) \<Rightarrow> Inr (poll_sources env cfg (loaded_sent state) SOURCES ([], w1)))"

definition main :: "env \<Rightarrow> config \<Rightarrow> world \<Rightarrow> exn option \<times> world" where
  "main env cfg w =
     (case load_state cfg w of
        (Inl e, w1) \<Rightarrow> (Some e, w1)
      | (Inr state, w1) \<Rightarrow>
          (let sent = loaded_sent state
           in case poll_sources env cfg sent SOURCES ([], w1) of
                (hits, w2) \<Rightarrow>
                  if hits \<noteq> [] then
                    (let top_hits = take 10 hits
                     in case digest_lines top_hits of
                          Inl e \<Rightarrow> (Some e, w2)
                        | Inr lines \<Rightarrow>
                            (None, notify_and_commit env cfg state sent top_hits lines w2))
                  else (None, log_event (EvPrint NoNewUpdates) w2)))"

section \<open>Notions used in the statements\<close>

text \<open>The surrogate code points, which UTF-8 cannot encode.\<close>

definition surrogate :: "nat \<Rightarrow> bool" where
  "surrogate c \<longleftrightarrow> 0xD800 \<le> c \<and> c \<le> 0xDFFF"

text \<open>The digits of a lower-case hexadecimal number: \<open>0\<close> to \<open>9\<close> and \<open>a\<close> to \<open>f\<close>.\<close>

definition is_hex :: "nat \<Rightarrow> bool" where
  "is_hex c \<longleftrightarrow> (48 \<le> c \<and> c \<le> 57) \<or> (97 \<le> c \<and> c \<le> 102)"

text \<open>The notifications among the recorded calls, and their titles.\<close>

fun is_post :: "event \<Rightarrow> bool" where
  "is_post (EvPost target t d) = True"
| "is_post e = False"

fun post_titles :: "event list \<Rightarrow> pystr list" where
  "post_titles [] = []"
| "post_titles (EvPost target t d # es) = t # post_titles es"
| "post_titles (e # es) = post_titles es"

text \<open>
  A list with every element kept at its first occurrence only: what "each pair at most
  once, in the order of first occurrence" asks of a listing.
\<close>

fun first_occurrences :: "'a list \<Rightarrow> 'a list" where
  "first_occurrences [] = []"
| "first_occurrences (x # xs) = x # first_occurrences (filter (\<lambda>y. y \<noteq> x) xs)"

text \<open>
  The lines of a chunk before \<open>rstrip\<close>: each line followed by a line feed. \<open>chunk_groups\<close>
  follows \<open>chunk_loop\<close> and keeps the lines of each chunk apart; the group \<open>g\<close> holds the
  lines that are in \<open>cur\<close>.
\<close>

definition with_newlines :: "pystr list \<Rightarrow> pystr" where
  "with_newlines g = concat (map (\<lambda>l. l @ [10]) g)"

fun chunk_groups :: "int \<Rightarrow> pystr list \<Rightarrow> pystr list \<Rightarrow> pystr list list" where
  "chunk_groups maxlen [] g = (if g = [] then [] else [g])"
| "chunk_groups maxlen (l # ls) g =
     (if int (length (with_newlines g) + length (l @ [10])) > maxlen \<and> g \<noteq> []
      then g # chunk_groups maxlen ls [l]
      else chunk_groups maxlen ls (g @ [l]))"

text \<open>
  \<open>quiet_step w w'\<close>: from \<open>w\<close> to \<open>w'\<close> the state file is untouched, the record of calls
  has only grown, and no notification was posted.
\<close>

definition quiet_step :: "world \<Rightarrow> world \<Rightarrow> bool" where
  "quiet_step w w' \<longleftrightarrow>
     state_file w' = state_file w \<and> prefix (events w) (events w') \<and>
     filter is_post (events w') = filter is_post (events w)"

text \<open>The call that fetching a source records first, if it records any.\<close>

definition fetch_event :: "source \<Rightarrow> event" where
  "fetch_event src =
     (if s_type src = ascii ''rss'' then EvFeedParse (s_url src) else EvGetListing (s_url src))"

text \<open>
  An anchor that a listing keeps: one with a text and with a non-empty \<open>href\<close>; and its
  \<open>href\<close>, as \<open>a.get("href","")\<close> gives it.
\<close>

definition usable :: "anchor \<Rightarrow> bool" where
  "usable a \<longleftrightarrow> a_text a \<noteq> [] \<and> a_href a \<noteq> None \<and> a_href a \<noteq> Some []"

definition href_of :: "anchor \<Rightarrow> pystr" where
  "href_of a = (case a_href a of None \<Rightarrow> [] | Some h \<Rightarrow> h)"

text \<open>The pair by which a listing removes duplicates.\<close>

definition item_key :: "item \<Rightarrow> pystr \<times> pystr" where
  "item_key x = (i_title x, i_url x)"

section \<open>Example surroundings\<close>

text \<open>
  Concrete libraries, settings and worlds at which the theorems below are instantiated.
  \<open>ascii_lower\<close> agrees with \<open>str.lower\<close> on texts whose cased letters are all ASCII.
\<close>

definition ascii_lower :: "pystr \<Rightarrow> pystr" where
  "ascii_lower s = map (\<lambda>c. if 65 \<le> c \<and> c \<le> 90 then c + 32 else c) s"

definition example_config :: config where
  "example_config =
     \<lparr>NTFY_URL = ascii ''https://ntfy.sh'', NTFY_TOPIC = Some (ascii ''tax''),
      STATE_FILE = ascii ''.state/tax_state.json'', MAX_ITEMS_PER_SOURCE = 30\<rparr>"

text \<open>The same settings with at most two items per source.\<close>

definition capped_config :: config where
  "capped_config = example_config\<lparr>MAX_ITEMS_PER_SOURCE := 2\<rparr>"

definition fresh_world :: world where
  "fresh_world = \<lparr>events = [], state_file = None, state_dir = False\<rparr>"

text \<open>No network: every fetch and every post raises.\<close>

definition offline_env :: env where
  "offline_env =
     \<lparr>lower = ascii_lower,
      urljoin = (\<lambda>b h. Inr (b @ h)),
      feedparser = True,
      feedparser_parse = (\<lambda>hist u. Inl (LibraryError 1)),
      requests_get = (\<lambda>hist u. Inl (LibraryError 2)),
      requests_post = (\<lambda>hist target t d. Some (LibraryError 3)),
      soup_select = (\<lambda>html sel. Inr []),
      soup_get_text = (\<lambda>html. Inr html),
      today = ascii ''2024-05-01''\<rparr>"

text \<open>
  The first feed has one entry, titled "2024nyeon sebeop gaejeongan balpyo" in Korean
  (announcement of the 2024 tax law revision bill), which contains the first keyword.
  Everything else is as in \<open>offline_env\<close>, except that posting succeeds.
\<close>

definition tax_bill_title :: pystr where
  "tax_bill_title =
     [0x32, 0x30, 0x32, 0x34, 0xB144, 0x20, 0xC138, 0xBC95, 0x20, 0xAC1C, 0xC815, 0xC548,
      0x20, 0xBC1C, 0xD45C]"

definition one_entry_env :: env where
  "one_entry_env =
     offline_env
       \<lparr>feedparser_parse :=
          (\<lambda>hist u.
             if u = ascii ''https://www.moef.go.kr/feeds/news_release.xml''
             then Inr [\<lparr>e_title = Some tax_bill_title, e_link = Some (ascii ''https://x/1''),
                        e_summary = None, e_description = None\<rparr>]
             else Inl (LibraryError 1)),
        requests_post := (\<lambda>hist target t d. None)\<rparr>"

text \<open>
  A listing page with five anchors: one without text, one without \<open>href\<close>, and the anchor
  \<open>notice\<close> to \<open>/n/1\<close> twice, around an anchor \<open>rules\<close> to \<open>/n/2\<close>.
\<close>

definition listing_env :: env where
  "listing_env =
     offline_env
       \<lparr>requests_get := (\<lambda>hist u. Inr \<lparr>r_ok = True, r_text = ascii ''<html>''\<rparr>),
        soup_select :=
          (\<lambda>html sel.
             Inr [\<lparr>a_text = [], a_href = Some (ascii ''/n/0'')\<rparr>,
                  \<lparr>a_text = ascii ''notice'', a_href = Some (ascii ''/n/1'')\<rparr>,
                  \<lparr>a_text = ascii ''rules'', a_href = Some (ascii ''/n/2'')\<rparr>,
                  \<lparr>a_text = ascii ''about'', a_href = None\<rparr>,
                  \<lparr>a_text = ascii ''notice'', a_href = Some (ascii ''/n/1'')\<rparr>])\<rparr>"

text \<open>An item whose title, "nalssi annae" in Korean (weather notice), matches no keyword.\<close>

definition weather_item :: item where
  "weather_item =
     \<lparr>i_title = [0xB0A0, 0xC528, 0x20, 0xC548, 0xB0B4], i_url = ascii ''https://x/2'',
      i_summary = []\<rparr>"

text \<open>
  Pages that contain a keyword are served, with an error status in \<open>error_page_env\<close> and
  with success in \<open>ok_page_env\<close>.
\<close>

definition error_page_env :: env where
  "error_page_env =
     offline_env
       \<lparr>requests_get :=
          (\<lambda>hist u. Inr \<lparr>r_ok = False, r_text = ascii ''Withholding tax rates''\<rparr>)\<rparr>"

definition ok_page_env :: env where
  "ok_page_env =
     offline_env
       \<lparr>requests_get :=
          (\<lambda>hist u. Inr \<lparr>r_ok = True, r_text = ascii ''Withholding tax rates''\<rparr>)\<rparr>"

section \<open>The identity of an item\<close>

lemma lstrip_ws_prefix: "\<forall>c\<in>set a. isspace c \<Longrightarrow> lstrip (a @ s) = lstrip s"
  by (simp add: lstrip_def)

lemma rstrip_ws_suffix:
  assumes "\<forall>c\<in>set b. isspace c"
  shows "rstrip (s @ b) = rstrip s"
proof -
  have "dropWhile isspace (rev b @ rev s) = dropWhile isspace (rev s)"
    by (rule dropWhile_append2) (use assms in auto)
  then show ?thesis by (simp add: rstrip_def)
qed

lemma strip_ws_around:
  assumes a: "\<forall>c\<in>set a. isspace c" and b: "\<forall>c\<in>set b. isspace c"
  shows "strip (a @ s @ b) = strip s"
proof (cases "\<forall>c\<in>set s. isspace c")
  case True
  then have "lstrip (s @ b) = []" "lstrip s = []"
    using b by (auto simp: lstrip_def)
  then show ?thesis
    using a by (simp add: strip_def lstrip_ws_prefix)
next
  case False
  then obtain x where "x \<in> set s" "\<not> isspace x" by blast
  then have "lstrip (s @ b) = lstrip s @ b"
    by (simp add: lstrip_def)
  then show ?thesis
    using a b by (simp add: strip_def lstrip_ws_prefix rstrip_ws_suffix)
qed

text \<open>Every string is its stripped form with white space around it.\<close>

lemma strip_decompose:
  "\<exists>a b. (\<forall>c\<in>set a. isspace c) \<and> (\<forall>c\<in>set b. isspace c) \<and> s = a @ strip s @ b"
proof -
  let ?a = "takeWhile isspace s"
  let ?x = "dropWhile isspace s"
  let ?b = "rev (takeWhile isspace (rev ?x))"
  have "rev (dropWhile isspace (rev ?x)) @ ?b =
        rev (takeWhile isspace (rev ?x) @ dropWhile isspace (rev ?x))"
    by (simp only: rev_append)
  also have "\<dots> = ?x"
    by (simp only: takeWhile_dropWhile_id rev_rev_ident)
  finally have x: "?x = strip s @ ?b"
    by (simp add: strip_def rstrip_def lstrip_def)
  have "s = ?a @ ?x" by simp
  with x have "s = ?a @ strip s @ ?b" by simp
  moreover have "\<forall>c\<in>set ?a. isspace c" by (auto dest: set_takeWhileD)
  moreover have "\<forall>c\<in>set ?b. isspace c" by (auto dest: set_takeWhileD)
  ultimately show ?thesis by blast
qed

lemma strip_idem: "strip (strip s) = strip s"
proof -
  obtain a b where "\<forall>c\<in>set a. isspace c" "\<forall>c\<in>set b. isspace c" "s = a @ strip s @ b"
    using strip_decompose by blast
  then show ?thesis using strip_ws_around [of a b "strip s"] by simp
qed

lemma set_strip_subset: "set (strip s) \<subseteq> set s"
proof -
  obtain a b where "s = a @ strip s @ b" using strip_decompose by blast
  then have "set s = set a \<union> set (strip s) \<union> set b" by (metis set_append Un_assoc)
  then show ?thesis by blast
qed

lemma length_hex32: "length (hex32 w) = 8"
  by (simp add: hex32_def)

lemma length_hex_of_state: "length (hex_of_state st) = 64"
  by (induction st rule: hex_of_state.induct) (simp add: length_hex32)

lemma length_sha256_hexdigest: "length (sha256_hexdigest m) = 64"
  by (simp add: sha256_hexdigest_def length_hex_of_state)

lemma utf8_char_surrogate: "surrogate c \<Longrightarrow> utf8_char c = Inl UnicodeEncodeError"
  by (simp add: utf8_char_def surrogate_def)

lemma utf8_char_scalar: "\<not> surrogate c \<Longrightarrow> \<exists>bs. utf8_char c = Inr bs"
  by (simp add: utf8_char_def surrogate_def)

lemma utf8_encode_total: "\<forall>c\<in>set s. \<not> surrogate c \<Longrightarrow> \<exists>bs. utf8_encode s = Inr bs"
proof (induction s)
  case Nil then show ?case by simp
next
  case (Cons c s)
  then obtain bs rest where "utf8_char c = Inr bs" "utf8_encode s = Inr rest"
    using utf8_char_scalar [of c] by auto
  then show ?case by simp
qed

lemma utf8_encode_fails:
  "\<exists>c\<in>set s. surrogate c \<Longrightarrow> utf8_encode s = Inl UnicodeEncodeError"
proof (induction s)
  case Nil then show ?case by simp
next
  case (Cons c s)
  show ?case
  proof (cases "surrogate c")
    case True
    then show ?thesis by (simp add: utf8_char_surrogate)
  next
    case False
    with Cons have "utf8_encode s = Inl UnicodeEncodeError" by auto
    moreover obtain bs where "utf8_char c = Inr bs" using utf8_char_scalar [OF False] by blast
    ultimately show ?thesis by simp
  qed
qed

lemma hexdigit_is_hex: "n < 16 \<Longrightarrow> is_hex (hexdigit n)"
  by (auto simp: is_hex_def hexdigit_def)

lemma and15: "unat ((w::u32) AND 15) < 16"
proof -
  have "unat (w AND 15) \<le> unat (15 :: u32)"
    by (rule word_and_le1 [THEN word_le_nat_alt [THEN iffD1]])
  then show ?thesis by simp
qed

lemma hex32_is_hex: "\<forall>c\<in>set (hex32 w). is_hex c"
  by (simp add: hex32_def hexdigit_is_hex and15)

lemma hex_of_state_is_hex: "\<forall>c\<in>set (hex_of_state st). is_hex c"
  by (induction st rule: hex_of_state.induct) (use hex32_is_hex in auto)

lemma sha256_hexdigest_is_hex: "\<forall>c\<in>set (sha256_hexdigest m). is_hex c"
  by (simp add: sha256_hexdigest_def hex_of_state_is_hex)

lemma make_id_depends_on_stripped:
  "strip t' = strip t \<Longrightarrow> strip u' = strip u \<Longrightarrow> make_id t' u' = make_id t u"
  by (simp add: make_id_def hashed_text_def)

lemma make_id_total:
  assumes "\<forall>c\<in>set t. \<not> surrogate c" "\<forall>c\<in>set u. \<not> surrogate c"
  shows "\<exists>s. make_id t u = Inr s \<and> length s = 16 \<and> (\<forall>c\<in>set s. is_hex c)"
proof -
  have "\<forall>c\<in>set (hashed_text t u). \<not> surrogate c"
    using assms set_strip_subset [of t] set_strip_subset [of u]
    by (auto simp: hashed_text_def surrogate_def)
  then obtain bs where "utf8_encode (hashed_text t u) = Inr bs"
    using utf8_encode_total by blast
  then show ?thesis
    using sha256_hexdigest_is_hex [of bs]
    by (auto simp: make_id_def length_sha256_hexdigest dest: in_set_takeD)
qed

lemma surrogate_not_space: "surrogate c \<Longrightarrow> \<not> isspace c"
  by (auto simp: surrogate_def isspace_def)

lemma surrogate_survives_strip:
  assumes "c \<in> set s" "surrogate c"
  shows "c \<in> set (strip s)"
proof -
  obtain a b where ab: "\<forall>x\<in>set a. isspace x" "\<forall>x\<in>set b. isspace x" "s = a @ strip s @ b"
    using strip_decompose by blast
  then have "set s = set a \<union> set (strip s) \<union> set b" by (metis set_append Un_assoc)
  with assms ab surrogate_not_space show ?thesis by blast
qed

lemma make_id_raises:
  assumes "\<exists>c\<in>set (t @ u). surrogate c"
  shows "make_id t u = Inl UnicodeEncodeError"
proof -
  have "\<exists>c\<in>set (hashed_text t u). surrogate c"
    using assms surrogate_survives_strip by (auto simp: hashed_text_def)
  then show ?thesis by (simp add: make_id_def utf8_encode_fails)
qed

text \<open>
  Claim C4, as amended. \<open>make_id\<close> is a function of its two arguments, so equal pairs have
  equal identities. White space around the title or the URL does not change the outcome:
  adding it or stripping it gives the same identity, or the same exception. For a pair in
  which no surrogate code point occurs the outcome is an identity of exactly 16 lower-case
  hexadecimal digits, the first 16 of the SHA-256 digest; for a pair in which a surrogate
  occurs, \<open>make_id\<close> raises \<open>UnicodeEncodeError\<close> and returns no identity.
\<close>

theorem make_id_stable:
  assumes "\<forall>c\<in>set a. isspace c" "\<forall>c\<in>set b. isspace c"
    and "\<forall>c\<in>set a'. isspace c" "\<forall>c\<in>set b'. isspace c"
  shows "make_id (a @ t @ b) (a' @ u @ b') = make_id t u
       \<and> make_id (strip t) (strip u) = make_id t u
       \<and> ((\<forall>c\<in>set (t @ u). \<not> surrogate c) \<longrightarrow>
            (\<exists>s. make_id t u = Inr s \<and> length s = 16 \<and> (\<forall>c\<in>set s. is_hex c)))
       \<and> ((\<exists>c\<in>set (t @ u). surrogate c) \<longrightarrow> make_id t u = Inl UnicodeEncodeError)"
proof (intro conjI impI)
  show "make_id (a @ t @ b) (a' @ u @ b') = make_id t u"
    using assms by (intro make_id_depends_on_stripped strip_ws_around)
  show "make_id (strip t) (strip u) = make_id t u"
    by (intro make_id_depends_on_stripped strip_idem)
  show "\<exists>s. make_id t u = Inr s \<and> length s = 16 \<and> (\<forall>c\<in>set s. is_hex c)"
    if "\<forall>c\<in>set (t @ u). \<not> surrogate c"
    using that by (intro make_id_total) auto
  show "make_id t u = Inl UnicodeEncodeError" if "\<exists>c\<in>set (t @ u). surrogate c"
    using that by (rule make_id_raises)
qed

theorem make_id_stable_witness:
  "make_id (ascii '' a b'' @ [9, 10]) ([0x3000] @ ascii ''https://x/1 '') =
     make_id (ascii ''a b'') (ascii ''https://x/1'')
   \<and> (\<exists>s. make_id (ascii ''a b'') (ascii ''https://x/1'') = Inr s \<and> length s = 16
          \<and> (\<forall>c\<in>set s. is_hex c))
   \<and> make_id (ascii ''a'' @ [0xDC00]) (ascii ''u'') = Inl UnicodeEncodeError"
proof -
  have "make_id ([32] @ ascii ''a b'' @ [9, 10]) ([0x3000] @ ascii ''https://x/1'' @ [32]) =
          make_id (ascii ''a b'') (ascii ''https://x/1'')
      \<and> (\<exists>s. make_id (ascii ''a b'') (ascii ''https://x/1'') = Inr s \<and> length s = 16
          \<and> (\<forall>c\<in>set s. is_hex c))"
    using make_id_stable [of "[32]" "[9, 10]" "[0x3000]" "[32]" "ascii ''a b''" "ascii ''https://x/1''"]
    by (simp add: isspace_def surrogate_def ascii_def)
  moreover have "make_id (ascii ''a'' @ [0xDC00]) (ascii ''u'') = Inl UnicodeEncodeError"
    using make_id_stable [of "[]" "[]" "[]" "[]" "ascii ''a'' @ [0xDC00]" "ascii ''u''"]
    by (simp add: surrogate_def)
  ultimately show ?thesis by (simp add: ascii_def)
qed

text \<open>
  Claim C4 as stated (an identity of fixed length for every pair of strings) fails for the
  title that consists of the lone surrogate \<open>U+D800\<close>, with an empty URL: the call raises
  \<open>UnicodeEncodeError\<close>.
\<close>

theorem make_id_surrogate_counterexample:
  "\<not> (\<exists>s. make_id [0xD800] [] = Inr s \<and> length s = 16)"
  by (simp add: make_id_def hashed_text_def strip_def lstrip_def rstrip_def isspace_def utf8_char_def)

text \<open>
  Claim C10. The pairs \<open>("a|b", "c")\<close> and \<open>("a", "b|c")\<close> are different, the text that is
  hashed is the same for both (\<open>a|b|c\<close>, so they agree before any truncation of the digest),
  and \<open>make_id\<close> returns the same identity for both.
\<close>

theorem make_id_not_injective:
  "(ascii ''a|b'', ascii ''c'') \<noteq> (ascii ''a'', ascii ''b|c'')
   \<and> hashed_text (ascii ''a|b'') (ascii ''c'') = hashed_text (ascii ''a'') (ascii ''b|c'')
   \<and> make_id (ascii ''a|b'') (ascii ''c'') = make_id (ascii ''a'') (ascii ''b|c'')
   \<and> (\<exists>s. make_id (ascii ''a|b'') (ascii ''c'') = Inr s \<and> length s = 16)"
proof -
  have neq: "(ascii ''a|b'', ascii ''c'') \<noteq> (ascii ''a'', ascii ''b|c'')"
    by (simp add: ascii_def)
  have same_text: "hashed_text (ascii ''a|b'') (ascii ''c'') = hashed_text (ascii ''a'') (ascii ''b|c'')"
    by (simp add: hashed_text_def strip_def lstrip_def rstrip_def isspace_def ascii_def)
  then have same: "make_id (ascii ''a|b'') (ascii ''c'') = make_id (ascii ''a'') (ascii ''b|c'')"
    by (simp add: make_id_def)
  have "\<exists>s. make_id (ascii ''a|b'') (ascii ''c'') = Inr s \<and> length s = 16 \<and> (\<forall>c\<in>set s. is_hex c)"
    by (rule make_id_total) (simp_all add: surrogate_def ascii_def)
  with neq same_text same show ?thesis by blast
qed

section \<open>Chunks are made of whole lines\<close>

lemma with_newlines_append: "with_newlines (g @ h) = with_newlines g @ with_newlines h"
  by (simp add: with_newlines_def)

lemma with_newlines_Nil_iff: "with_newlines g = [] \<longleftrightarrow> g = []"
  by (cases g) (simp_all add: with_newlines_def)

lemma with_newlines_single: "with_newlines [l] = l @ [10]"
  by (simp add: with_newlines_def)

lemma chunk_loop_groups:
  "chunk_loop maxlen ls (with_newlines g) out = (cur, out') \<Longrightarrow>
   out' @ (if cur \<noteq> [] then [rstrip cur] else []) =
   out @ map (\<lambda>g. rstrip (with_newlines g)) (chunk_groups maxlen ls g)"
proof (induction ls arbitrary: g out)
  case Nil
  then show ?case by (auto simp: with_newlines_Nil_iff)
next
  case (Cons l ls)
  show ?case
  proof (cases "int (length (with_newlines g) + length (l @ [10])) > maxlen \<and> g \<noteq> []")
    case True
    with Cons.prems have "chunk_loop maxlen ls (with_newlines [l]) (out @ [rstrip (with_newlines g)]) = (cur, out')"
      by (simp add: with_newlines_Nil_iff with_newlines_single)
    from Cons.IH [OF this] True show ?thesis by simp
  next
    case False
    with Cons.prems have "chunk_loop maxlen ls (with_newlines (g @ [l])) out = (cur, out')"
      by (auto simp: with_newlines_Nil_iff with_newlines_append with_newlines_single)
    from Cons.IH [OF this] False show ?thesis by auto
  qed
qed

lemma chunk_groups_Nil_iff: "chunk_groups maxlen ls g = [] \<longleftrightarrow> ls = [] \<and> g = []"
  by (induction ls arbitrary: g) auto

lemma concat_chunk_groups: "concat (chunk_groups maxlen ls g) = g @ ls"
  by (induction ls arbitrary: g) auto

lemma chunk_groups_nonempty: "[] \<notin> set (chunk_groups maxlen ls g)"
  by (induction ls arbitrary: g) auto

lemma splitlines_Nil_iff: "splitlines s = [] \<longleftrightarrow> s = []"
  by (induction s rule: splitlines.induct) (auto split: list.splits)

lemma chunk_eq_groups:
  "chunk s maxlen =
     (if s = [] then [ascii ''(empty)'']
      else map (\<lambda>g. rstrip (with_newlines g)) (chunk_groups maxlen (splitlines s) []))"
proof -
  obtain cur out where loop: "chunk_loop maxlen (splitlines s) [] [] = (cur, out)"
    by (cases "chunk_loop maxlen (splitlines s) [] []")
  then have "chunk_loop maxlen (splitlines s) (with_newlines []) [] = (cur, out)"
    by (simp add: with_newlines_def)
  from chunk_loop_groups [OF this]
  have eq: "out @ (if cur \<noteq> [] then [rstrip cur] else []) =
        map (\<lambda>g. rstrip (with_newlines g)) (chunk_groups maxlen (splitlines s) [])"
    by simp
  have "(if cur \<noteq> [] then out @ [rstrip cur] else out) = out @ (if cur \<noteq> [] then [rstrip cur] else [])"
    by simp
  with eq loop show ?thesis
    by (simp add: chunk_def chunk_groups_Nil_iff splitlines_Nil_iff del: map_eq_conv)
qed

lemma line_shorter_than_group: "l \<in> set g \<Longrightarrow> length l < length (with_newlines g)"
  by (induction g) (auto simp: with_newlines_def)

lemma chunk_groups_long_alone:
  assumes "\<forall>l\<in>set g. maxlen \<le> int (length l) \<longrightarrow> g = [l]"
  shows "\<forall>g'\<in>set (chunk_groups maxlen ls g). \<forall>l\<in>set g'. maxlen \<le> int (length l) \<longrightarrow> g' = [l]"
  using assms
proof (induction ls arbitrary: g)
  case Nil
  then show ?case by auto
next
  case (Cons l ls)
  show ?case
  proof (cases "int (length (with_newlines g) + length (l @ [10])) > maxlen \<and> g \<noteq> []")
    case True
    have "\<forall>x\<in>set [l]. maxlen \<le> int (length x) \<longrightarrow> [l] = [x]" by simp
    from Cons.IH [OF this] Cons.prems True show ?thesis by auto
  next
    case False
    have "\<forall>x\<in>set (g @ [l]). maxlen \<le> int (length x) \<longrightarrow> g @ [l] = [x]"
    proof (cases "g = []")
      case True then show ?thesis by simp
    next
      case g: False
      with False have le: "int (length (with_newlines g) + length (l @ [10])) \<le> maxlen" by simp
      have "int (length x) < maxlen" if "x \<in> set (g @ [l])" for x
        using that le line_shorter_than_group [of x g] by auto
      then show ?thesis by fastforce
    qed
    from Cons.IH [OF this] False show ?thesis by auto
  qed
qed

lemma chunk_groups_fits:
  "int (length (with_newlines (g @ ls))) \<le> maxlen \<Longrightarrow>
   chunk_groups maxlen ls g = (if g @ ls = [] then [] else [g @ ls])"
proof (induction ls arbitrary: g)
  case Nil
  then show ?case by simp
next
  case (Cons l ls)
  then have "\<not> int (length (with_newlines g) + length (l @ [10])) > maxlen"
    by (simp add: with_newlines_append with_newlines_def)
  moreover have "chunk_groups maxlen ls (g @ [l]) = [(g @ [l]) @ ls]"
    using Cons.IH [of "g @ [l]"] Cons.prems by simp
  ultimately show ?case by simp
qed

lemma length_splitlines: "length (with_newlines (splitlines s)) \<le> length s + 1"
  by (induction s rule: splitlines.induct) (auto simp: with_newlines_def split: list.splits)

lemma chunk_single_line:
  assumes "splitlines s = [l]"
  shows "chunk s maxlen = [rstrip l]"
proof -
  have "s \<noteq> []" using assms splitlines_Nil_iff [of s] by auto
  moreover have "rstrip (l @ [10]) = rstrip l"
    by (rule rstrip_ws_suffix) (simp add: isspace_def)
  ultimately show ?thesis
    using assms by (simp add: chunk_eq_groups with_newlines_single)
qed

lemma chunk_under_budget:
  assumes "int (length s) < maxlen"
  shows "length (chunk s maxlen) = 1"
proof (cases "s = []")
  case True
  then show ?thesis by (simp add: chunk_eq_groups)
next
  case False
  have "int (length (with_newlines ([] @ splitlines s))) \<le> maxlen"
    using assms length_splitlines [of s] by simp
  from chunk_groups_fits [OF this] False show ?thesis
    by (simp add: chunk_eq_groups splitlines_Nil_iff)
qed

lemma is_linebreak_CR: "is_linebreak 13"
  by (simp add: is_linebreak_def)

lemma splitlines_no_break:
  "s \<noteq> [] \<Longrightarrow> \<forall>c\<in>set s. \<not> is_linebreak c \<Longrightarrow> splitlines s = [s]"
proof (induction s rule: splitlines.induct)
  case 1
  then show ?case by simp
next
  case (2 c)
  then show ?case by simp
next
  case (3 c d cs)
  then have nb: "\<not> is_linebreak c" and rest: "\<forall>x\<in>set (d # cs). \<not> is_linebreak x"
    by auto
  have no_crlf: "\<not> (c = 13 \<and> d = 10)"
    using nb is_linebreak_CR by auto
  have "splitlines (d # cs) = [d # cs]"
    using "3.IH"(3) [OF no_crlf nb _ rest] by simp
  with no_crlf nb show ?case by simp
qed

text \<open>
  Claim C5, as amended. The lines of the input are cut into consecutive groups, none of
  them empty, and each chunk is one group: its lines, each followed by a line feed, with
  the white space at the end of the chunk removed. So no line is divided between two
  chunks. A line as long as the budget or longer is the only line of its group. An input
  shorter than the budget gives exactly one chunk. An input of a single line gives that
  line as its only chunk, without the white space at its end (unchanged when it does not
  end in white space), however long it is. The empty input gives the one chunk \<open>(empty)\<close>.
  The budget is the parameter \<open>maxlen\<close>, 1500 where \<open>main\<close> calls \<open>chunk\<close>.
\<close>

theorem chunk_whole_lines:
  "(\<exists>groups. concat groups = splitlines s \<and> [] \<notin> set groups
       \<and> (\<forall>g\<in>set groups. \<forall>l\<in>set g. maxlen \<le> int (length l) \<longrightarrow> g = [l])
       \<and> chunk s maxlen =
           (if s = [] then [ascii ''(empty)'']
            else map (\<lambda>g. rstrip (with_newlines g)) groups))
   \<and> (int (length s) < maxlen \<longrightarrow> length (chunk s maxlen) = 1)
   \<and> (\<forall>l. splitlines s = [l] \<longrightarrow>
         chunk s maxlen = [rstrip l] \<and> (l = [] \<or> \<not> isspace (last l) \<longrightarrow> chunk s maxlen = [l]))
   \<and> chunk [] maxlen = [ascii ''(empty)'']"
proof (intro conjI allI impI)
  let ?groups = "chunk_groups maxlen (splitlines s) []"
  have "concat ?groups = splitlines s" by (simp add: concat_chunk_groups)
  moreover have "[] \<notin> set ?groups" by (rule chunk_groups_nonempty)
  moreover have "\<forall>g\<in>set ?groups. \<forall>l\<in>set g. maxlen \<le> int (length l) \<longrightarrow> g = [l]"
    by (rule chunk_groups_long_alone) simp
  ultimately show "\<exists>groups. concat groups = splitlines s \<and> [] \<notin> set groups
       \<and> (\<forall>g\<in>set groups. \<forall>l\<in>set g. maxlen \<le> int (length l) \<longrightarrow> g = [l])
       \<and> chunk s maxlen =
           (if s = [] then [ascii ''(empty)'']
            else map (\<lambda>g. rstrip (with_newlines g)) groups)"
    using chunk_eq_groups [of s maxlen] by blast
next
  show "length (chunk s maxlen) = 1" if "int (length s) < maxlen"
    using that by (rule chunk_under_budget)
next
  fix l assume l: "splitlines s = [l]"
  then show "chunk s maxlen = [rstrip l]" by (rule chunk_single_line)
  show "chunk s maxlen = [l]" if "l = [] \<or> \<not> isspace (last l)"
  proof -
    have "rstrip l = l"
      using that by (cases l rule: rev_cases) (simp_all add: rstrip_def)
    with l show ?thesis by (simp add: chunk_single_line)
  qed
next
  show "chunk [] maxlen = [ascii ''(empty)'']" by (simp add: chunk_eq_groups)
qed

theorem chunk_whole_lines_witness:
  "length (chunk (ascii ''tax law'') 1500) = 1
   \<and> chunk (ascii ''a long line'') 5 = [ascii ''a long line'']
   \<and> chunk (ascii ''trailing  '') 1500 = [ascii ''trailing'']"
proof -
  have one: "splitlines (ascii ''a long line'') = [ascii ''a long line'']"
    by (rule splitlines_no_break) (simp_all add: ascii_def is_linebreak_def)
  have two: "splitlines (ascii ''trailing  '') = [ascii ''trailing  '']"
    by (rule splitlines_no_break) (simp_all add: ascii_def is_linebreak_def)
  have "length (chunk (ascii ''tax law'') 1500) = 1"
    using chunk_whole_lines [of "ascii ''tax law''" 1500] by (simp add: ascii_def)
  moreover have "chunk (ascii ''a long line'') 5 = [ascii ''a long line'']"
    using chunk_whole_lines [of "ascii ''a long line''" 5] one
    by (simp add: ascii_def isspace_def is_linebreak_def rstrip_def)
  moreover have "chunk (ascii ''trailing  '') 1500 = [ascii ''trailing'']"
    using chunk_whole_lines [of "ascii ''trailing  ''" 1500] two
    by (simp add: ascii_def isspace_def is_linebreak_def rstrip_def)
  ultimately show ?thesis by blast
qed

text \<open>
  Claim C5 as stated says that a single line longer than the budget comes out intact. A
  line of 1501 letters \<open>x\<close> and a space at the end is one line of 1502 characters; its
  chunk is the 1501 letters, without the space, so the line itself is not among the chunks.
\<close>

theorem chunk_trims_counterexample:
  "splitlines (replicate 1501 120 @ [32]) = [replicate 1501 120 @ [32]]
   \<and> 1500 < length (replicate 1501 120 @ [32::nat])
   \<and> chunk (replicate 1501 120 @ [32]) 1500 = [replicate 1501 120]
   \<and> replicate 1501 120 @ [32] \<notin> set (chunk (replicate 1501 120 @ [32]) 1500)"
proof -
  let ?line = "replicate 1501 120 @ [32::nat]"
  have sl: "splitlines ?line = [?line]"
    by (rule splitlines_no_break) (simp_all add: is_linebreak_def)
  have "rstrip ?line = replicate 1501 120"
    by (simp add: rstrip_def isspace_def)
  with chunk_single_line [OF sl] have ch: "chunk ?line 1500 = [replicate 1501 120]"
    by simp
  have "length ?line \<noteq> length (replicate 1501 (120::nat))"
    by simp
  then have "?line \<noteq> replicate 1501 120"
    by (rule contrapos_nn) (erule arg_cong)
  then have "?line \<notin> set (chunk ?line 1500)"
    by (simp only: ch list.set insert_iff empty_iff simp_thms not_False_eq_True)
  moreover have "1500 < length ?line" by simp
  ultimately show ?thesis using sl ch by (intro conjI)
qed

section \<open>What polling leaves alone\<close>

lemma quiet_step_refl: "quiet_step w w"
  by (simp add: quiet_step_def)

lemma quiet_step_trans: "quiet_step w w1 \<Longrightarrow> quiet_step w1 w2 \<Longrightarrow> quiet_step w w2"
  by (auto simp: quiet_step_def)

lemma quiet_step_log: "\<not> is_post e \<Longrightarrow> quiet_step w (log_event e w)"
  by (simp add: quiet_step_def log_event_def)

lemma quiet_step_then_log: "quiet_step w w1 \<Longrightarrow> \<not> is_post e \<Longrightarrow> quiet_step w (log_event e w1)"
  by (auto intro: quiet_step_trans quiet_step_log)

lemma fetch_rss_quiet: "fetch_rss env cfg u w = (r, w') \<Longrightarrow> quiet_step w w'"
  by (auto simp: fetch_rss_def Let_def quiet_step_refl quiet_step_log split: if_splits sum.splits)

lemma fetch_html_quiet: "fetch_html env cfg u sel base w = (r, w') \<Longrightarrow> quiet_step w w'"
  by (auto simp: fetch_html_def Let_def quiet_step_log split: if_splits sum.splits)

lemma fetch_source_quiet: "fetch_source env cfg src w = (r, w') \<Longrightarrow> quiet_step w w'"
  by (auto simp: fetch_source_def split: if_splits dest: fetch_rss_quiet fetch_html_quiet)

lemma check_body_quiet: "check_body env it w = (ok, w') \<Longrightarrow> quiet_step w w'"
proof -
  have a: "quiet_step w (log_event (EvGetBody (i_url it)) w)"
    by (simp add: quiet_step_log)
  have b: "quiet_step (log_event (EvGetBody (i_url it)) w)
             (log_event (EvMatchKeywords body) (log_event (EvGetBody (i_url it)) w))" for body
    by (simp add: quiet_step_log)
  assume "check_body env it w = (ok, w')"
  then show ?thesis
    using a quiet_step_trans [OF a b]
    by (auto simp: check_body_def Let_def split: if_splits sum.splits)
qed

lemma process_item_quiet:
  assumes "process_item env sent src_name it (hits, w) = (r, hits', w')"
  shows "quiet_step w w'"
proof (cases "make_id (i_title it) (i_url it)")
  case (Inl e)
  with assms show ?thesis by (simp add: process_item_def quiet_step_refl)
next
  case (Inr iid)
  show ?thesis
  proof (cases "iid \<in> set sent")
    case True
    with Inr assms show ?thesis by (simp add: process_item_def quiet_step_refl)
  next
    case False
    let ?w1 = "log_event (EvMatchKeywords (i_title it)) w"
    have a: "quiet_step w ?w1" by (simp add: quiet_step_log)
    show ?thesis
    proof (cases "match_keywords env (i_title it)")
      case True
      with Inr False assms have "w' = ?w1" by (simp add: process_item_def Let_def)
      with a show ?thesis by simp
    next
      case nomatch: False
      obtain ok w2 where cb: "check_body env it ?w1 = (ok, w2)"
        by (cases "check_body env it ?w1")
      with Inr False nomatch assms have "w' = w2"
        by (simp add: process_item_def Let_def split: if_splits)
      with check_body_quiet [OF cb] a show ?thesis by (auto intro: quiet_step_trans)
    qed
  qed
qed

lemma process_items_quiet:
  "process_items env sent src_name its (hits, w) = (r, hits', w') \<Longrightarrow> quiet_step w w'"
proof (induction its arbitrary: hits w)
  case Nil
  then show ?case by (simp add: quiet_step_refl)
next
  case (Cons it its)
  obtain r1 hits1 w1 where step: "process_item env sent src_name it (hits, w) = (r1, hits1, w1)"
    by (cases "process_item env sent src_name it (hits, w)")
  have q1: "quiet_step w w1" by (rule process_item_quiet [OF step])
  show ?case
  proof (cases r1)
    case None
    with Cons.prems step have "process_items env sent src_name its (hits1, w1) = (r, hits', w')"
      by simp
    from Cons.IH [OF this] q1 show ?thesis by (rule quiet_step_trans [rotated])
  next
    case (Some e)
    with Cons.prems step have "w' = w1" by simp
    with q1 show ?thesis by simp
  qed
qed

lemma poll_source_quiet:
  assumes "poll_source env cfg sent src (hits, w) = (hits', w')"
  shows "quiet_step w w'"
proof -
  obtain r w1 where f: "fetch_source env cfg src w = (r, w1)"
    by (cases "fetch_source env cfg src w")
  have q1: "quiet_step w w1" by (rule fetch_source_quiet [OF f])
  show ?thesis
  proof (cases r)
    case (Inl e)
    with f assms have "w' = log_event (EvPrint (SourceError (s_name src) e)) w1"
      by (simp add: poll_source_def)
    with q1 show ?thesis by (simp add: quiet_step_then_log)
  next
    case (Inr its)
    obtain r2 hits2 w2 where p: "process_items env sent (s_name src) its (hits, w1) = (r2, hits2, w2)"
      by (cases "process_items env sent (s_name src) its (hits, w1)")
    have q2: "quiet_step w w2"
      using q1 process_items_quiet [OF p] by (rule quiet_step_trans)
    show ?thesis
    proof (cases r2)
      case None
      with Inr f p assms have "w' = w2" by (simp add: poll_source_def)
      with q2 show ?thesis by simp
    next
      case (Some e)
      with Inr f p assms have "w' = log_event (EvPrint (SourceError (s_name src) e)) w2"
        by (simp add: poll_source_def)
      with q2 show ?thesis by (simp add: quiet_step_then_log)
    qed
  qed
qed

lemma poll_sources_quiet:
  "poll_sources env cfg sent srcs (hits, w) = (hits', w') \<Longrightarrow> quiet_step w w'"
proof (induction srcs arbitrary: hits w)
  case Nil
  then show ?case by (simp add: quiet_step_refl)
next
  case (Cons src srcs)
  obtain hits1 w1 where s: "poll_source env cfg sent src (hits, w) = (hits1, w1)"
    by (cases "poll_source env cfg sent src (hits, w)")
  with Cons.prems have "poll_sources env cfg sent srcs (hits1, w1) = (hits', w')" by simp
  from poll_source_quiet [OF s] Cons.IH [OF this] show ?case by (rule quiet_step_trans)
qed

lemma load_state_file: "load_state cfg w = (r, w1) \<Longrightarrow>
   state_file w1 = state_file w \<and> events w1 = events w"
  by (auto simp: load_state_def ensure_dir_def Let_def split: option.splits file_content.splits if_splits)

text \<open>
  Claim C3. When the loop over the sources ends with an empty \<open>hits\<close>, the run ends
  without an exception after printing that there is nothing new; the state file is what it
  was before the run (absent if it was absent), and the run has posted no notification.
  So the state is written back only in a run that found a new relevant item.
\<close>

theorem no_hits_no_effect:
  assumes "run_hits env cfg w = Inr ([], w2)"
  shows "main env cfg w = (None, log_event (EvPrint NoNewUpdates) w2)
       \<and> state_file (snd (main env cfg w)) = state_file w
       \<and> filter is_post (events (snd (main env cfg w))) = filter is_post (events w)"
proof -
  obtain r w1 where l: "load_state cfg w = (r, w1)" by (cases "load_state cfg w")
  with assms obtain state where r: "r = Inr state"
    by (cases r) (simp_all add: run_hits_def)
  with l assms have p: "poll_sources env cfg (loaded_sent state) SOURCES ([], w1) = ([], w2)"
    by (simp add: run_hits_def)
  then have m: "main env cfg w = (None, log_event (EvPrint NoNewUpdates) w2)"
    using l r by (simp add: main_def)
  have "quiet_step w1 w2" by (rule poll_sources_quiet [OF p])
  then have "quiet_step w1 (log_event (EvPrint NoNewUpdates) w2)"
    by (simp add: quiet_step_then_log)
  with load_state_file [OF l] m show ?thesis by (simp add: quiet_step_def)
qed

lemma ascii_eq_iff: "ascii a = ascii b \<longleftrightarrow> a = b"
proof -
  have "inj (of_char :: char \<Rightarrow> nat)" by (rule injI) simp
  then show ?thesis by (simp add: ascii_def inj_map_eq_map)
qed

lemma offline_run:
  "\<exists>w2. run_hits offline_env example_config fresh_world = Inr ([], w2)"
  by (simp add: run_hits_def load_state_def ensure_dir_def loaded_sent_def SOURCES_def
      poll_source_def fetch_source_def fetch_rss_def fetch_html_def offline_env_def
      fresh_world_def log_event_def ascii_eq_iff Let_def)

theorem no_hits_no_effect_witness:
  "fst (main offline_env example_config fresh_world) = None
   \<and> state_file (snd (main offline_env example_config fresh_world)) = None
   \<and> filter is_post (events (snd (main offline_env example_config fresh_world))) = []"
proof -
  obtain w2 where h: "run_hits offline_env example_config fresh_world = Inr ([], w2)"
    using offline_run by blast
  note t = no_hits_no_effect [OF h]
  from t have a: "fst (main offline_env example_config fresh_world) = None"
    by simp
  from t have b: "state_file (snd (main offline_env example_config fresh_world)) =
      state_file fresh_world"
    by blast
  from t have c: "filter is_post (events (snd (main offline_env example_config fresh_world))) =
      filter is_post (events fresh_world)"
    by blast
  have "state_file fresh_world = None" "events fresh_world = []"
    by (simp_all add: fresh_world_def)
  with a b c show ?thesis by simp
qed

section \<open>Items that were sent before\<close>

lemma process_items_all_seen:
  "\<forall>it\<in>set its. \<exists>iid. make_id (i_title it) (i_url it) = Inr iid \<and> iid \<in> set sent \<Longrightarrow>
   process_items env sent src_name its (hits, w) = (None, hits, w)"
  by (induction its) (auto simp: process_item_def)

text \<open>
  Claim C2. For an item whose identity is in \<open>sent\<close>, the body of the loop does nothing at
  all: the hits and the world, with its record of calls, are what they were, so neither
  \<open>match_keywords\<close> nor the fetch of the item's page has been called for it, and the loop
  goes on with the next item. A source all of whose items are in \<open>sent\<close> is passed without
  a single call.
\<close>

theorem seen_item_is_skipped:
  assumes "make_id (i_title it) (i_url it) = Inr iid" and "iid \<in> set sent"
  shows "process_item env sent src_name it (hits, w) = (None, hits, w)
       \<and> process_items env sent src_name (it # its) (hits, w) =
           process_items env sent src_name its (hits, w)
       \<and> ((\<forall>x\<in>set its. \<exists>i. make_id (i_title x) (i_url x) = Inr i \<and> i \<in> set sent) \<longrightarrow>
            process_items env sent src_name (it # its) (hits, w) = (None, hits, w))"
proof -
  have one: "process_item env sent src_name it (hits, w) = (None, hits, w)"
    using assms by (simp add: process_item_def)
  then have two: "process_items env sent src_name (it # its) (hits, w) =
      process_items env sent src_name its (hits, w)"
    by simp
  from one two show ?thesis by (simp add: process_items_all_seen)
qed

lemma make_id_weather:
  "\<exists>iid. make_id (i_title weather_item) (i_url weather_item) = Inr iid"
  using make_id_total [of "i_title weather_item" "i_url weather_item"]
  by (auto simp: weather_item_def surrogate_def ascii_def)

theorem seen_item_is_skipped_witness:
  "\<exists>iid. make_id (i_title weather_item) (i_url weather_item) = Inr iid
     \<and> process_item offline_env [ascii ''0123456789abcdef'', iid] (ascii ''src'') weather_item
          ([], fresh_world) = (None, [], fresh_world)
     \<and> process_items offline_env [ascii ''0123456789abcdef'', iid] (ascii ''src'')
          [weather_item, weather_item] ([], fresh_world) = (None, [], fresh_world)"
proof -
  obtain iid where i: "make_id (i_title weather_item) (i_url weather_item) = Inr iid"
    using make_id_weather by blast
  have "iid \<in> set [ascii ''0123456789abcdef'', iid]" by simp
  from seen_item_is_skipped [OF i this, of offline_env "ascii ''src''" "[]" fresh_world "[weather_item]"]
  show ?thesis using i by auto
qed

section \<open>The secondary check\<close>

lemma process_item_unseen:
  assumes "make_id (i_title it) (i_url it) = Inr iid" and "iid \<notin> set sent"
  shows "process_item env sent src_name it (hits, w) =
     (let w1 = log_event (EvMatchKeywords (i_title it)) w;
          new_hit = \<lparr>h_id = iid, h_title = i_title it, h_url = i_url it, h_src = src_name\<rparr>
      in if match_keywords env (i_title it) then (None, hits @ [new_hit], w1)
         else (case check_body env it w1 of
                 (True, w2) \<Rightarrow> (None, hits @ [new_hit], w2)
               | (False, w2) \<Rightarrow> (None, hits, w2)))"
  using assms by (auto simp: process_item_def Let_def split: prod.splits)

text \<open>
  Claim C8. Take an item that was not sent before and whose title matches no keyword. The
  body of the loop fetches the item's page and never ends in an exception. It appends the
  item to \<open>hits\<close> exactly when the fetch returned a response with a success status whose
  text, as extracted from the page, matches a keyword. When the fetch raised, or returned
  a response without a success status, \<open>hits\<close> is unchanged. The page is requested after
  the keyword check of the title, which is the last call recorded before it.
\<close>

theorem secondary_check_fails_closed:
  assumes "make_id (i_title it) (i_url it) = Inr iid" and "iid \<notin> set sent"
    and "\<not> match_keywords env (i_title it)"
  shows
    "(let answer = requests_get env (events w @ [EvMatchKeywords (i_title it)]) (i_url it);
          body_matches = (\<exists>rt body. answer = Inr rt \<and> r_ok rt
                            \<and> soup_get_text env (r_text rt) = Inr body
                            \<and> match_keywords env body);
          new_hit = \<lparr>h_id = iid, h_title = i_title it, h_url = i_url it, h_src = src_name\<rparr>;
          outcome = process_item env sent src_name it (hits, w)
      in fst outcome = None
         \<and> fst (snd outcome) = (if body_matches then hits @ [new_hit] else hits)
         \<and> ((case answer of Inl e \<Rightarrow> True | Inr rt \<Rightarrow> \<not> r_ok rt) \<longrightarrow>
              fst (snd outcome) = hits)
         \<and> EvGetBody (i_url it) \<in> set (events (snd (snd outcome))))"
  using assms
  by (auto simp: process_item_unseen check_body_def log_event_def Let_def split: sum.splits)

theorem secondary_check_fails_closed_witness:
  "fst (process_item offline_env [] (ascii ''src'') weather_item ([], fresh_world)) = None
   \<and> fst (snd (process_item offline_env [] (ascii ''src'') weather_item ([], fresh_world))) = []
   \<and> fst (process_item error_page_env [] (ascii ''src'') weather_item ([], fresh_world)) = None
   \<and> fst (snd (process_item error_page_env [] (ascii ''src'') weather_item ([], fresh_world))) = []
   \<and> (\<exists>iid. fst (snd (process_item ok_page_env [] (ascii ''src'') weather_item ([], fresh_world))) =
          [\<lparr>h_id = iid, h_title = i_title weather_item, h_url = i_url weather_item,
            h_src = ascii ''src''\<rparr>])"
proof -
  obtain iid where i: "make_id (i_title weather_item) (i_url weather_item) = Inr iid"
    using make_id_weather by blast
  have n: "iid \<notin> set []" by simp
  have m1: "\<not> match_keywords offline_env (i_title weather_item)"
    by (simp add: match_keywords_def weather_item_def offline_env_def ascii_lower_def
        KEYWORDS_def ascii_def)
  have m2: "\<not> match_keywords error_page_env (i_title weather_item)"
    by (simp add: match_keywords_def weather_item_def error_page_env_def offline_env_def
        ascii_lower_def KEYWORDS_def ascii_def)
  have m3: "\<not> match_keywords ok_page_env (i_title weather_item)"
    by (simp add: match_keywords_def weather_item_def ok_page_env_def offline_env_def
        ascii_lower_def KEYWORDS_def ascii_def)
  have page: "match_keywords ok_page_env (ascii ''Withholding tax rates'')"
    by (simp add: match_keywords_def ok_page_env_def offline_env_def ascii_lower_def
        KEYWORDS_def ascii_def)
  have "fst (process_item offline_env [] (ascii ''src'') weather_item ([], fresh_world)) = None
      \<and> fst (snd (process_item offline_env [] (ascii ''src'') weather_item ([], fresh_world))) = []"
    using secondary_check_fails_closed [OF i n m1, of fresh_world "ascii ''src''" "[]"]
    by (simp add: Let_def offline_env_def)
  moreover
  have "fst (process_item error_page_env [] (ascii ''src'') weather_item ([], fresh_world)) = None
      \<and> fst (snd (process_item error_page_env [] (ascii ''src'') weather_item ([], fresh_world))) = []"
    using secondary_check_fails_closed [OF i n m2, of fresh_world "ascii ''src''" "[]"]
    by (simp add: Let_def error_page_env_def offline_env_def)
  moreover
  have "fst (snd (process_item ok_page_env [] (ascii ''src'') weather_item ([], fresh_world))) =
          [\<lparr>h_id = iid, h_title = i_title weather_item, h_url = i_url weather_item,
            h_src = ascii ''src''\<rparr>]"
    using secondary_check_fails_closed [OF i n m3, of fresh_world "ascii ''src''" "[]"] page
    by (simp add: Let_def ok_page_env_def offline_env_def)
  ultimately show ?thesis by blast
qed

section \<open>A source that fails\<close>

lemma poll_sources_append:
  "poll_sources env cfg sent (xs @ ys) hw =
     poll_sources env cfg sent ys (poll_sources env cfg sent xs hw)"
  by (induction xs arbitrary: hw) simp_all

lemma fetch_source_logs:
  assumes "fetch_source env cfg src w = (r, w1)"
    and "s_type src = ascii ''rss'' \<longrightarrow> feedparser env"
  shows "fetch_event src \<in> set (events w1)"
  using assms
  by (auto simp: fetch_source_def fetch_event_def fetch_rss_def fetch_html_def log_event_def
      Let_def split: if_splits sum.splits)

lemma quiet_step_events: "quiet_step w w' \<Longrightarrow> set (events w) \<subseteq> set (events w')"
  by (auto simp: quiet_step_def dest: set_mono_prefix)

lemma poll_source_logs:
  assumes "poll_source env cfg sent src (hits, w) = (hits', w')"
    and "s_type src = ascii ''rss'' \<longrightarrow> feedparser env"
  shows "fetch_event src \<in> set (events w')"
proof -
  obtain r w1 where f: "fetch_source env cfg src w = (r, w1)"
    by (cases "fetch_source env cfg src w")
  have ev: "fetch_event src \<in> set (events w1)"
    by (rule fetch_source_logs [OF f assms(2)])
  show ?thesis
  proof (cases r)
    case (Inl e)
    with f assms(1) ev show ?thesis by (auto simp: poll_source_def log_event_def)
  next
    case (Inr its)
    obtain r2 hits2 w2 where p:
      "process_items env sent (s_name src) its (hits, w1) = (r2, hits2, w2)"
      by (cases "process_items env sent (s_name src) its (hits, w1)")
    from process_items_quiet [OF p] ev have "fetch_event src \<in> set (events w2)"
      using quiet_step_events by blast
    with Inr f p assms(1) show ?thesis
      by (cases r2) (auto simp: poll_source_def log_event_def)
  qed
qed

lemma poll_sources_logs:
  "poll_sources env cfg sent srcs (hits, w) = (hits', w') \<Longrightarrow>
   \<forall>s\<in>set srcs. (s_type s = ascii ''rss'' \<longrightarrow> feedparser env) \<longrightarrow>
      fetch_event s \<in> set (events w')"
proof (induction srcs arbitrary: hits w)
  case Nil
  then show ?case by simp
next
  case (Cons src srcs)
  obtain hits1 w1 where s: "poll_source env cfg sent src (hits, w) = (hits1, w1)"
    by (cases "poll_source env cfg sent src (hits, w)")
  with Cons.prems have rest: "poll_sources env cfg sent srcs (hits1, w1) = (hits', w')"
    by simp
  have "set (events w1) \<subseteq> set (events w')"
    using poll_sources_quiet [OF rest] by (rule quiet_step_events)
  with poll_source_logs [OF s] Cons.IH [OF rest] show ?case by auto
qed

text \<open>
  Claim C9. Let the sources \<open>before\<close> have been polled, with \<open>hits\<close> collected so far, and
  let fetching the next source \<open>src\<close> raise \<open>e\<close>. Then this turn of the loop leaves
  \<open>hits\<close> as it is and prints the error with the name of the source; the loop goes on with
  the sources \<open>after\<close> it from there; and at the end of the loop the fetch of every one
  of those sources has been called (for a feed, provided \<open>feedparser\<close> is installed; without
  it a feed is passed over without a call).
\<close>

theorem source_failure_is_contained:
  assumes "poll_sources env cfg sent before ([], w0) = (hits, w)"
    and "fetch_source env cfg src w = (Inl e, w1)"
  shows "poll_source env cfg sent src (hits, w) =
           (hits, log_event (EvPrint (SourceError (s_name src) e)) w1)
       \<and> poll_sources env cfg sent (before @ src # after) ([], w0) =
           poll_sources env cfg sent after
             (hits, log_event (EvPrint (SourceError (s_name src) e)) w1)
       \<and> (\<forall>s\<in>set after. (s_type s = ascii ''rss'' \<longrightarrow> feedparser env) \<longrightarrow>
            fetch_event s \<in>
              set (events (snd (poll_sources env cfg sent (before @ src # after) ([], w0)))))"
proof -
  let ?w2 = "log_event (EvPrint (SourceError (s_name src) e)) w1"
  have one: "poll_source env cfg sent src (hits, w) = (hits, ?w2)"
    using assms(2) by (simp add: poll_source_def)
  have two: "poll_sources env cfg sent (before @ src # after) ([], w0) =
      poll_sources env cfg sent after (hits, ?w2)"
    using assms(1) one by (simp add: poll_sources_append)
  obtain hits' w' where r: "poll_sources env cfg sent after (hits, ?w2) = (hits', w')"
    by (cases "poll_sources env cfg sent after (hits, ?w2)")
  from poll_sources_logs [OF r] one two r show ?thesis by simp
qed

theorem source_failure_is_contained_witness:
  "poll_sources offline_env example_config [] SOURCES ([], fresh_world) =
     poll_sources offline_env example_config [] (tl SOURCES)
       ([], \<lparr>events = [EvFeedParse (s_url (hd SOURCES)),
                         EvPrint (SourceError (s_name (hd SOURCES)) (LibraryError 1))],
              state_file = None, state_dir = False\<rparr>)
   \<and> EvGetListing (s_url (last SOURCES)) \<in>
       set (events (snd (poll_sources offline_env example_config [] SOURCES ([], fresh_world))))"
proof -
  have a: "poll_sources offline_env example_config [] [] ([], fresh_world) = ([], fresh_world)"
    by simp
  have b: "fetch_source offline_env example_config (hd SOURCES) fresh_world =
      (Inl (LibraryError 1), log_event (EvFeedParse (s_url (hd SOURCES))) fresh_world)"
    by (simp add: fetch_source_def fetch_rss_def SOURCES_def offline_env_def Let_def)
  have c: "[] @ hd SOURCES # tl SOURCES = SOURCES"
    by (simp add: SOURCES_def)
  have d: "last SOURCES \<in> set (tl SOURCES)" "s_type (last SOURCES) \<noteq> ascii ''rss''"
    "fetch_event (last SOURCES) = EvGetListing (s_url (last SOURCES))"
    by (simp_all add: SOURCES_def fetch_event_def ascii_eq_iff)
  note t = source_failure_is_contained [OF a b, of "tl SOURCES", unfolded c]
  have w1: "log_event (EvPrint (SourceError (s_name (hd SOURCES)) (LibraryError 1)))
        (log_event (EvFeedParse (s_url (hd SOURCES))) fresh_world) =
      \<lparr>events = [EvFeedParse (s_url (hd SOURCES)),
                 EvPrint (SourceError (s_name (hd SOURCES)) (LibraryError 1))],
       state_file = None, state_dir = False\<rparr>"
    by (simp add: log_event_def fresh_world_def)
  from t have first: "poll_sources offline_env example_config [] SOURCES ([], fresh_world) =
      poll_sources offline_env example_config [] (tl SOURCES)
        ([], log_event (EvPrint (SourceError (s_name (hd SOURCES)) (LibraryError 1)))
               (log_event (EvFeedParse (s_url (hd SOURCES))) fresh_world))"
    by blast
  from t d have second: "EvGetListing (s_url (last SOURCES)) \<in>
      set (events (snd (poll_sources offline_env example_config [] SOURCES ([], fresh_world))))"
    by metis
  from first second show ?thesis by (simp only: w1 simp_thms)
qed

section \<open>A listing without duplicates\<close>

lemma set_first_occurrences: "set (first_occurrences xs) = set xs"
  by (induction xs rule: first_occurrences.induct) auto

lemma distinct_first_occurrences: "distinct (first_occurrences xs)"
  by (induction xs rule: first_occurrences.induct) (auto simp: set_first_occurrences)

lemma map_first_occurrences:
  "inj_on f (set xs) \<Longrightarrow> map f (first_occurrences xs) = first_occurrences (map f xs)"
proof (induction xs rule: first_occurrences.induct)
  case 1
  then show ?case by simp
next
  case (2 x xs)
  have inj: "inj_on f (set (filter (\<lambda>y. y \<noteq> x) xs))"
    using "2.prems" by (auto intro: inj_on_subset)
  have "filter (\<lambda>y. y \<noteq> f x) (map f xs) = map f (filter (\<lambda>y. y \<noteq> x) xs)"
    using "2.prems" by (induction xs) (auto simp: inj_on_def)
  with "2.IH" [OF inj] show ?case by simp
qed

lemma dict_set_absent: "k \<notin> fst ` set d \<Longrightarrow> dict_set k v d = d @ [(k, v)]"
  by (induction d) auto

lemma dict_set_same: "(k, v) \<in> set d \<Longrightarrow> distinct (map fst d) \<Longrightarrow> dict_set k v d = d"
  by (induction d) (auto simp: rev_image_eqI)

lemma fold_dict_set:
  assumes "inj_on K (set ys \<union> set xs)" and "distinct ys"
  shows "fold (\<lambda>x d. dict_set (K x) x d) xs (map (\<lambda>y. (K y, y)) ys) =
         map (\<lambda>y. (K y, y)) (ys @ first_occurrences (filter (\<lambda>x. x \<notin> set ys) xs))"
  using assms
proof (induction xs arbitrary: ys)
  case Nil
  then show ?case by simp
next
  case (Cons x xs)
  let ?d = "map (\<lambda>y. (K y, y)) ys"
  have inj_ys: "inj_on K (set ys)"
    using Cons.prems(1) by (auto intro: inj_on_subset)
  have dist: "distinct (map fst ?d)"
    using inj_ys Cons.prems(2) by (simp add: distinct_map comp_def)
  show ?case
  proof (cases "x \<in> set ys")
    case True
    then have "(K x, x) \<in> set ?d" by auto
    then have "dict_set (K x) x ?d = ?d"
      using dist by (rule dict_set_same)
    moreover have "inj_on K (set ys \<union> set xs)"
      using Cons.prems(1) by (auto intro: inj_on_subset)
    ultimately show ?thesis
      using Cons.IH [of ys] Cons.prems(2) True by simp
  next
    case False
    have "K x \<notin> K ` set ys"
      using False Cons.prems(1) by (auto simp: inj_on_def)
    then have "K x \<notin> fst ` set ?d" by (auto simp: image_iff)
    then have step: "dict_set (K x) x ?d = map (\<lambda>y. (K y, y)) (ys @ [x])"
      by (simp add: dict_set_absent)
    have "inj_on K (set (ys @ [x]) \<union> set xs)"
      using Cons.prems(1) by (auto intro: inj_on_subset)
    moreover have "distinct (ys @ [x])"
      using False Cons.prems(2) by simp
    ultimately have "fold (\<lambda>x d. dict_set (K x) x d) xs (map (\<lambda>y. (K y, y)) (ys @ [x])) =
        map (\<lambda>y. (K y, y))
          ((ys @ [x]) @ first_occurrences (filter (\<lambda>z. z \<notin> set (ys @ [x])) xs))"
      by (rule Cons.IH)
    moreover have "filter (\<lambda>z. z \<notin> set (ys @ [x])) xs =
        filter (\<lambda>y. y \<noteq> x) (filter (\<lambda>z. z \<notin> set ys) xs)"
      by (auto intro: filter_cong)
    ultimately show ?thesis
      using step False by simp
  qed
qed

lemma item_key_inj: "\<forall>x\<in>set out. i_summary x = [] \<Longrightarrow> inj_on item_key (set out)"
  by (auto simp: inj_on_def item_key_def)

lemma uniq_items_first_occurrences:
  assumes "\<forall>x\<in>set out. i_summary x = []"
  shows "uniq_items out = first_occurrences out"
proof -
  have "inj_on item_key (set [] \<union> set out)"
    using item_key_inj [OF assms] by simp
  from fold_dict_set [OF this, simplified]
  show ?thesis by (simp add: uniq_items_def item_key_def comp_def)
qed

lemma anchor_items_kept:
  "anchor_items env b ancs = Inr out \<Longrightarrow>
   \<exists>urls. map (\<lambda>a. urljoin env b (href_of a)) (filter usable ancs) = map Inr urls
         \<and> map item_key out = zip (map a_text (filter usable ancs)) urls
         \<and> (\<forall>x\<in>set out. i_summary x = [])"
proof (induction ancs arbitrary: out)
  case Nil
  then show ?case by simp
next
  case (Cons a ancs)
  show ?case
  proof (cases "usable a")
    case False
    with Cons.prems have "anchor_items env b ancs = Inr out"
      by (auto simp: usable_def Let_def split: option.splits)
    from Cons.IH [OF this] False show ?thesis by simp
  next
    case True
    then have h: "a_text a \<noteq> []" "(case a_href a of None \<Rightarrow> [] | Some h \<Rightarrow> h) = href_of a"
      "href_of a \<noteq> []"
      by (auto simp: usable_def href_of_def split: option.splits)
    with Cons.prems obtain u rest where
      u: "urljoin env b (href_of a) = Inr u" and
      rest: "anchor_items env b ancs = Inr rest" and
      out: "out = \<lparr>i_title = a_text a, i_url = u, i_summary = []\<rparr> # rest"
      by (auto simp: Let_def split: sum.splits)
    from Cons.IH [OF rest] obtain urls where
      "map (\<lambda>a. urljoin env b (href_of a)) (filter usable ancs) = map Inr urls"
      "map item_key rest = zip (map a_text (filter usable ancs)) urls"
      "\<forall>x\<in>set rest. i_summary x = []"
      by blast
    with True u out have
      "map (\<lambda>a. urljoin env b (href_of a)) (filter usable (a # ancs)) = map Inr (u # urls)
       \<and> map item_key out = zip (map a_text (filter usable (a # ancs))) (u # urls)
       \<and> (\<forall>x\<in>set out. i_summary x = [])"
      by (simp add: item_key_def)
    then show ?thesis by blast
  qed
qed

lemma length_first_occurrences: "length (first_occurrences xs) \<le> length xs"
proof (induction xs rule: first_occurrences.induct)
  case 1
  then show ?case by simp
next
  case (2 x xs)
  have "length (filter (\<lambda>y. y \<noteq> x) xs) \<le> length xs" by simp
  with "2.IH" have "length (first_occurrences (filter (\<lambda>y. y \<noteq> x) xs)) \<le> length xs"
    by (rule order_trans)
  then show ?case by simp
qed

lemma anchor_items_length: "anchor_items env b ancs = Inr out \<Longrightarrow> length out \<le> length ancs"
proof (induction ancs arbitrary: out)
  case Nil
  then show ?case by simp
next
  case (Cons a ancs)
  show ?case
  proof (cases "a_text a = [] \<or> (case a_href a of None \<Rightarrow> [] | Some h \<Rightarrow> h) = []")
    case True
    with Cons.prems have "anchor_items env b ancs = Inr out" by (simp add: Let_def)
    from Cons.IH [OF this] show ?thesis by simp
  next
    case False
    with Cons.prems obtain x rest where "anchor_items env b ancs = Inr rest" "out = x # rest"
      by (auto simp: Let_def split: sum.splits)
    with Cons.IH [of rest] show ?thesis by simp
  qed
qed

lemma py_take_nonneg: "0 \<le> n \<Longrightarrow> py_take n xs = take (nat n) xs"
  by (simp add: py_take_def)

text \<open>
  Claim C7. When \<open>fetch_html\<close> returns items, the page was fetched with a success status
  and its anchors selected. Only the anchors \<open>soup.select(sel)[:MAX_ITEMS_PER_SOURCE]\<close> are
  looked at: for a maximum that is not negative these are the first
  \<open>MAX_ITEMS_PER_SOURCE\<close> anchors, and no more items than that are returned. Of the anchors
  looked at, those without text or without a non-empty \<open>href\<close> are left out. The \<open>href\<close> of
  every other one was resolved by \<open>urljoin\<close> against \<open>base or url\<close>: the base of the source,
  or its URL when no base (or an empty one) is given. The (title, resolved URL) pairs of
  the items returned are the pairs of those anchors, each at its first occurrence and
  nowhere else, in the order of the anchors; so no pair occurs twice. Every item has an
  empty summary.
\<close>

theorem listing_items_unique:
  assumes "fetch_html env cfg src_url sel base w = (Inr items, w')"
  shows "\<exists>r anchors urls.
           requests_get env (events w) src_url = Inr r \<and> r_ok r
         \<and> soup_select env (r_text r) sel = Inr anchors
         \<and> map (\<lambda>a. urljoin env (or_else base src_url) (href_of a))
               (filter usable (py_take (MAX_ITEMS_PER_SOURCE cfg) anchors)) = map Inr urls
         \<and> map item_key items =
               first_occurrences
                 (zip (map a_text (filter usable (py_take (MAX_ITEMS_PER_SOURCE cfg) anchors)))
                      urls)
         \<and> (\<forall>x\<in>set items. i_summary x = [])
         \<and> distinct (map item_key items)
         \<and> length items \<le> length (py_take (MAX_ITEMS_PER_SOURCE cfg) anchors)
         \<and> (0 \<le> MAX_ITEMS_PER_SOURCE cfg \<longrightarrow>
               py_take (MAX_ITEMS_PER_SOURCE cfg) anchors =
                 take (nat (MAX_ITEMS_PER_SOURCE cfg)) anchors
             \<and> length items \<le> nat (MAX_ITEMS_PER_SOURCE cfg))"
proof -
  from assms obtain r anchors out where
    r: "requests_get env (events w) src_url = Inr r" "r_ok r" and
    sel: "soup_select env (r_text r) sel = Inr anchors" and
    out: "anchor_items env (or_else base src_url) (py_take (MAX_ITEMS_PER_SOURCE cfg) anchors) = Inr out" and
    items: "items = uniq_items out"
    by (auto simp: fetch_html_def Let_def split: sum.splits if_splits)
  from anchor_items_kept [OF out] obtain urls where
    urls: "map (\<lambda>a. urljoin env (or_else base src_url) (href_of a))
             (filter usable (py_take (MAX_ITEMS_PER_SOURCE cfg) anchors)) = map Inr urls" and
    keys: "map item_key out =
             zip (map a_text (filter usable (py_take (MAX_ITEMS_PER_SOURCE cfg) anchors))) urls" and
    summ: "\<forall>x\<in>set out. i_summary x = []"
    by blast
  have eq: "items = first_occurrences out"
    using items uniq_items_first_occurrences [OF summ] by simp
  have k: "map item_key items = first_occurrences (map item_key out)"
    using eq map_first_occurrences [OF item_key_inj [OF summ]] by simp
  have d: "distinct (map item_key items)"
    using k by (simp add: distinct_first_occurrences)
  have e: "\<forall>x\<in>set items. i_summary x = []"
    using eq summ by (simp add: set_first_occurrences)
  have len: "length items \<le> length (py_take (MAX_ITEMS_PER_SOURCE cfg) anchors)"
    using eq length_first_occurrences [of out] anchor_items_length [OF out] by simp
  have cap: "py_take (MAX_ITEMS_PER_SOURCE cfg) anchors =
        take (nat (MAX_ITEMS_PER_SOURCE cfg)) anchors
      \<and> length items \<le> nat (MAX_ITEMS_PER_SOURCE cfg)"
    if "0 \<le> MAX_ITEMS_PER_SOURCE cfg"
    using len py_take_nonneg [OF that, of anchors] by simp
  from d e len cap show ?thesis
    using r sel urls keys k by auto
qed

theorem listing_items_unique_witness:
  "fetch_html listing_env example_config (ascii ''https://www.nts.go.kr/list'') (ascii ''a'')
     (Some (ascii ''https://www.nts.go.kr'')) fresh_world =
     (Inr [\<lparr>i_title = ascii ''notice'', i_url = ascii ''https://www.nts.go.kr/n/1'', i_summary = []\<rparr>,
           \<lparr>i_title = ascii ''rules'', i_url = ascii ''https://www.nts.go.kr/n/2'', i_summary = []\<rparr>],
      log_event (EvGetListing (ascii ''https://www.nts.go.kr/list'')) fresh_world)
   \<and> distinct (map item_key
        [\<lparr>i_title = ascii ''notice'', i_url = ascii ''https://www.nts.go.kr/n/1'', i_summary = []\<rparr>,
         \<lparr>i_title = ascii ''rules'', i_url = ascii ''https://www.nts.go.kr/n/2'', i_summary = []\<rparr>])
   \<and> fetch_html listing_env capped_config (ascii ''https://www.nts.go.kr/list'') (ascii ''a'')
     (Some (ascii ''https://www.nts.go.kr'')) fresh_world =
     (Inr [\<lparr>i_title = ascii ''notice'', i_url = ascii ''https://www.nts.go.kr/n/1'', i_summary = []\<rparr>],
      log_event (EvGetListing (ascii ''https://www.nts.go.kr/list'')) fresh_world)
   \<and> length
        [\<lparr>i_title = ascii ''notice'', i_url = ascii ''https://www.nts.go.kr/n/1'', i_summary = []\<rparr>]
       \<le> nat (MAX_ITEMS_PER_SOURCE capped_config)
   \<and> MAX_ITEMS_PER_SOURCE capped_config = 2"
proof -
  have run: "fetch_html listing_env example_config (ascii ''https://www.nts.go.kr/list'') (ascii ''a'')
     (Some (ascii ''https://www.nts.go.kr'')) fresh_world =
     (Inr [\<lparr>i_title = ascii ''notice'', i_url = ascii ''https://www.nts.go.kr/n/1'', i_summary = []\<rparr>,
           \<lparr>i_title = ascii ''rules'', i_url = ascii ''https://www.nts.go.kr/n/2'', i_summary = []\<rparr>],
      log_event (EvGetListing (ascii ''https://www.nts.go.kr/list'')) fresh_world)"
    by (simp add: fetch_html_def listing_env_def offline_env_def example_config_def py_take_def
        or_else_def uniq_items_def Let_def ascii_def)
  have capped: "fetch_html listing_env capped_config (ascii ''https://www.nts.go.kr/list'')
     (ascii ''a'') (Some (ascii ''https://www.nts.go.kr'')) fresh_world =
     (Inr [\<lparr>i_title = ascii ''notice'', i_url = ascii ''https://www.nts.go.kr/n/1'', i_summary = []\<rparr>],
      log_event (EvGetListing (ascii ''https://www.nts.go.kr/list'')) fresh_world)"
    by (simp add: fetch_html_def listing_env_def offline_env_def capped_config_def
        example_config_def py_take_def or_else_def uniq_items_def Let_def ascii_def)
  have two: "MAX_ITEMS_PER_SOURCE capped_config = 2"
    by (simp add: capped_config_def example_config_def)
  from listing_items_unique [OF run] have first:
    "distinct (map item_key
        [\<lparr>i_title = ascii ''notice'', i_url = ascii ''https://www.nts.go.kr/n/1'', i_summary = []\<rparr>,
         \<lparr>i_title = ascii ''rules'', i_url = ascii ''https://www.nts.go.kr/n/2'', i_summary = []\<rparr>])"
    by blast
  from listing_items_unique [OF capped] two have second:
    "length
        [\<lparr>i_title = ascii ''notice'', i_url = ascii ''https://www.nts.go.kr/n/1'', i_summary = []\<rparr>]
       \<le> nat (MAX_ITEMS_PER_SOURCE capped_config)"
    by auto
  from run capped two first second show ?thesis by blast
qed

section \<open>A run that finds something\<close>

lemma digest_lines_raise: "hs \<noteq> [] \<Longrightarrow> digest_lines hs = Inl TypeError"
  by (cases hs) (simp_all add: digest_line_def textwrap_shorten3_def)

lemma main_raises_on_hits:
  assumes "run_hits env cfg w = Inr (hits, w2)" and "hits \<noteq> []"
  shows "main env cfg w = (Some TypeError, w2)"
proof -
  obtain r w1 where l: "load_state cfg w = (r, w1)" by (cases "load_state cfg w")
  with assms(1) obtain state where r: "r = Inr state"
    by (cases r) (simp_all add: run_hits_def)
  with l assms(1) have "poll_sources env cfg (loaded_sent state) SOURCES ([], w1) = (hits, w2)"
    by (simp add: run_hits_def)
  with l r assms(2) show ?thesis
    by (simp add: main_def Let_def digest_lines_raise)
qed

lemma main_keeps_state_file: "state_file (snd (main env cfg w)) = state_file w"
proof -
  obtain r w1 where l: "load_state cfg w = (r, w1)" by (cases "load_state cfg w")
  show ?thesis
  proof (cases r)
    case (Inl e)
    with l load_state_file [OF l] show ?thesis by (simp add: main_def)
  next
    case (Inr state)
    obtain hits w2 where p: "poll_sources env cfg (loaded_sent state) SOURCES ([], w1) = (hits, w2)"
      by (cases "poll_sources env cfg (loaded_sent state) SOURCES ([], w1)")
    have q: "state_file w2 = state_file w"
      using poll_sources_quiet [OF p] load_state_file [OF l] by (simp add: quiet_step_def)
    show ?thesis
    proof (cases "hits = []")
      case True
      with Inr l p q show ?thesis by (simp add: main_def log_event_def)
    next
      case False
      with Inr l p q show ?thesis by (simp add: main_def Let_def digest_lines_raise)
    qed
  qed
qed

lemma make_id_tax_bill:
  "\<exists>iid. make_id tax_bill_title (ascii ''https://x/1'') = Inr iid"
  using make_id_total [of tax_bill_title "ascii ''https://x/1''"]
  by (auto simp: tax_bill_title_def surrogate_def ascii_def)

lemma tax_bill_matches: "match_keywords one_entry_env tax_bill_title"
  by (simp add: match_keywords_def one_entry_env_def offline_env_def ascii_lower_def
      KEYWORDS_def tax_bill_title_def)

lemma ascii_Nil_iff: "ascii s = [] \<longleftrightarrow> s = []"
  by (simp add: ascii_def)

lemma first_feed:
  "fetch_source one_entry_env example_config (hd SOURCES) w =
     (Inr [\<lparr>i_title = tax_bill_title, i_url = ascii ''https://x/1'', i_summary = []\<rparr>],
      log_event (EvFeedParse (s_url (hd SOURCES))) w)"
  by (simp add: fetch_source_def fetch_rss_def SOURCES_def one_entry_env_def offline_env_def
      example_config_def py_take_def entry_item_def or_else_def strip_html_def strip_def
      lstrip_def rstrip_def ascii_Nil_iff Let_def)

lemma other_sources_fail:
  "\<exists>w2. poll_sources one_entry_env example_config [] (tl SOURCES) (hits, w) = (hits, w2)"
  by (simp add: SOURCES_def poll_source_def fetch_source_def fetch_rss_def fetch_html_def
      one_entry_env_def offline_env_def log_event_def ascii_eq_iff Let_def)

lemma one_entry_run:
  "\<exists>iid w2. run_hits one_entry_env example_config fresh_world =
     Inr ([\<lparr>h_id = iid, h_title = tax_bill_title, h_url = ascii ''https://x/1'',
            h_src = s_name (hd SOURCES)\<rparr>], w2)"
proof -
  obtain iid where i: "make_id tax_bill_title (ascii ''https://x/1'') = Inr iid"
    using make_id_tax_bill by blast
  let ?it = "\<lparr>i_title = tax_bill_title, i_url = ascii ''https://x/1'', i_summary = []\<rparr>"
  let ?hit = "\<lparr>h_id = iid, h_title = tax_bill_title, h_url = ascii ''https://x/1'',
      h_src = s_name (hd SOURCES)\<rparr>"
  have l: "load_state example_config fresh_world =
      (Inr \<lparr>sent_ids = Some [], other_keys = []\<rparr>, ensure_dir example_config fresh_world)"
    by (simp add: load_state_def ensure_dir_def fresh_world_def Let_def)
  let ?w1 = "ensure_dir example_config fresh_world"
  let ?w2 = "log_event (EvMatchKeywords tax_bill_title)
      (log_event (EvFeedParse (s_url (hd SOURCES))) ?w1)"
  have "process_item one_entry_env [] (s_name (hd SOURCES)) ?it
      ([], log_event (EvFeedParse (s_url (hd SOURCES))) ?w1) = (None, [?hit], ?w2)"
    using process_item_unseen [of ?it iid "[]" one_entry_env "s_name (hd SOURCES)" "[]"] i
      tax_bill_matches
    by (simp add: Let_def)
  then have "poll_source one_entry_env example_config [] (hd SOURCES) ([], ?w1) = ([?hit], ?w2)"
    by (simp add: poll_source_def first_feed)
  moreover obtain w3 where
    "poll_sources one_entry_env example_config [] (tl SOURCES) ([?hit], ?w2) = ([?hit], w3)"
    using other_sources_fail by blast
  moreover have "SOURCES = hd SOURCES # tl SOURCES" by (simp add: SOURCES_def)
  ultimately have "poll_sources one_entry_env example_config [] SOURCES ([], ?w1) = ([?hit], w3)"
    by (metis poll_sources.simps(2))
  with l show ?thesis by (simp add: run_hits_def loaded_sent_def)
qed

text \<open>
  Claim C1 says that a run which finds a new relevant item adds the identities of the
  notified items to the persisted \<open>sent_ids\<close>. Here is such a run: no state file yet, the
  first feed has one entry whose title contains a keyword, every other source fails, and
  posting would succeed. The loop over the sources ends with this one item in \<open>hits\<close>.
  Then building the digest raises \<open>TypeError\<close>, at the call of \<open>textwrap.shorten\<close> with three
  positional arguments, and the run ends there: no state file has been written and no
  notification posted. The same happens in every run with a non-empty \<open>hits\<close>
  (\<open>main_raises_on_hits\<close>), and no run changes the state file (\<open>main_keeps_state_file\<close>).
\<close>

theorem run_with_hit_raises:
  "(\<exists>iid w2. run_hits one_entry_env example_config fresh_world =
       Inr ([\<lparr>h_id = iid, h_title = tax_bill_title, h_url = ascii ''https://x/1'',
              h_src = s_name (hd SOURCES)\<rparr>], w2))
   \<and> fst (main one_entry_env example_config fresh_world) = Some TypeError
   \<and> state_file (snd (main one_entry_env example_config fresh_world)) = None
   \<and> filter is_post (events (snd (main one_entry_env example_config fresh_world))) = []"
proof -
  obtain iid w2 where h: "run_hits one_entry_env example_config fresh_world =
     Inr ([\<lparr>h_id = iid, h_title = tax_bill_title, h_url = ascii ''https://x/1'',
            h_src = s_name (hd SOURCES)\<rparr>], w2)"
    using one_entry_run by blast
  have m: "main one_entry_env example_config fresh_world = (Some TypeError, w2)"
    by (rule main_raises_on_hits [OF h]) simp
  obtain r w1 where l: "load_state example_config fresh_world = (r, w1)"
    by (cases "load_state example_config fresh_world")
  with h obtain state where
    p: "poll_sources one_entry_env example_config (loaded_sent state) SOURCES ([], w1) =
        ([\<lparr>h_id = iid, h_title = tax_bill_title, h_url = ascii ''https://x/1'',
            h_src = s_name (hd SOURCES)\<rparr>], w2)"
    by (cases r) (simp_all add: run_hits_def)
  have "quiet_step w1 w2" by (rule poll_sources_quiet [OF p])
  with load_state_file [OF l] have "state_file w2 = None" "filter is_post (events w2) = []"
    by (simp_all add: quiet_step_def fresh_world_def)
  with h m show ?thesis by auto
qed

section \<open>The branch that is never reached\<close>

text \<open>
  What the rest of the branch for a non-empty \<open>hits\<close> would do if the digest could be
  built: it posts the chunks and then writes the state back with the identities of the
  batch added, whatever became of the posts.
\<close>

text \<open>No run posts a notification: the only calls of \<open>send_push\<close> are in that branch.\<close>

lemma main_never_posts:
  "filter is_post (events (snd (main env cfg w))) = filter is_post (events w)"
proof -
  obtain r w1 where l: "load_state cfg w = (r, w1)" by (cases "load_state cfg w")
  show ?thesis
  proof (cases r)
    case (Inl e)
    with l load_state_file [OF l] show ?thesis by (simp add: main_def)
  next
    case (Inr state)
    obtain hits w2 where p: "poll_sources env cfg (loaded_sent state) SOURCES ([], w1) = (hits, w2)"
      by (cases "poll_sources env cfg (loaded_sent state) SOURCES ([], w1)")
    have q: "filter is_post (events w2) = filter is_post (events w)"
      using poll_sources_quiet [OF p] load_state_file [OF l] by (simp add: quiet_step_def)
    show ?thesis
    proof (cases "hits = []")
      case True
      with Inr l p q show ?thesis by (simp add: main_def log_event_def)
    next
      case False
      with Inr l p q show ?thesis by (simp add: main_def Let_def digest_lines_raise)
    qed
  qed
qed

lemma set_fold_insert:
  "set (fold (\<lambda>h s. List.insert (h_id h) s) hs s0) = set s0 \<union> h_id ` set hs"
  by (induction hs arbitrary: s0) auto

lemma commit_adds_batch:
  "state_file (notify_and_commit env cfg state sent top_hits ls w) =
     Some (JSON (state\<lparr>sent_ids :=
       Some (fold (\<lambda>h s. List.insert (h_id h) s) top_hits sent)\<rparr>))
   \<and> set (fold (\<lambda>h s. List.insert (h_id h) s) top_hits sent) = set sent \<union> h_id ` set top_hits"
  by (simp add: notify_and_commit_def save_state_def Let_def set_fold_insert)

lemma post_titles_append: "post_titles (xs @ ys) = post_titles xs @ post_titles ys"
  by (induction xs rule: post_titles.induct) simp_all

lemma send_push_title:
  assumes "NTFY_TOPIC cfg = Some topic" "topic \<noteq> []" "\<forall>c\<in>set body. \<not> surrogate c"
  shows "post_titles (events (send_push env cfg t body w)) = post_titles (events w) @ [t]"
proof -
  obtain data where "utf8_encode body = Inr data"
    using utf8_encode_total [OF assms(3)] by blast
  with assms(1,2) show ?thesis
    by (simp add: send_push_def log_event_def Let_def post_titles_append split: option.splits)
qed

lemma push_chunks_titles:
  assumes "NTFY_TOPIC cfg = Some topic" "topic \<noteq> []"
  shows "\<forall>ch\<in>set chs. \<forall>c\<in>set ch. \<not> surrogate c \<Longrightarrow>
         post_titles (events (push_chunks env cfg body i chs w)) =
         post_titles (events w) @ map (chunk_title (today env) body) [i..<i + length chs]"
proof (induction chs arbitrary: i w)
  case Nil
  then show ?case by simp
next
  case (Cons ch chs)
  have "post_titles (events (send_push env cfg (chunk_title (today env) body i) ch w)) =
      post_titles (events w) @ [chunk_title (today env) body i]"
    using Cons.prems by (intro send_push_title [OF assms]) simp
  moreover have "[i..<i + length (ch # chs)] = i # [Suc i..<Suc i + length chs]"
    by (simp add: upt_rec)
  ultimately show ?case
    using Cons.IH [of "Suc i"] Cons.prems by simp
qed

lemma splitlines_line_feed:
  "xs \<noteq> [] \<Longrightarrow> \<forall>c\<in>set xs. \<not> is_linebreak c \<Longrightarrow> splitlines (xs @ 10 # ys) = xs # splitlines ys"
proof (induction xs rule: splitlines.induct)
  case 1
  then show ?case by simp
next
  case (2 c)
  have "is_linebreak 10" by (simp add: is_linebreak_def)
  with 2 have "c \<noteq> 13" using is_linebreak_CR by auto
  with 2 \<open>is_linebreak 10\<close> show ?case
    by (cases ys) (simp_all split: list.splits)
next
  case (3 c d cs)
  then have nb: "\<not> is_linebreak c" and rest: "\<forall>x\<in>set (d # cs). \<not> is_linebreak x"
    by auto
  have no_crlf: "\<not> (c = 13 \<and> d = 10)"
    using nb is_linebreak_CR by auto
  have "splitlines ((d # cs) @ 10 # ys) = (d # cs) # splitlines ys"
    using "3.IH"(3) [OF no_crlf nb _ rest] by simp
  with no_crlf nb show ?case by simp
qed

lemma body_1500_chunks:
  "chunk (replicate 1498 97 @ [10, 98]) 1500 = [replicate 1498 97, [98]]"
proof -
  have lines: "splitlines (replicate 1498 97 @ 10 # [98]) = [replicate 1498 97, [98]]"
    by (subst splitlines_line_feed) (simp_all add: is_linebreak_def)
  have groups: "chunk_groups 1500 [replicate 1498 97, [98]] [] = [[replicate 1498 97], [[98]]]"
    by (simp add: with_newlines_def)
  have "rstrip (replicate 1498 97 @ [10]) = replicate 1498 97" "rstrip [98, 10] = [98]"
    by (simp_all add: rstrip_def isspace_def)
  with lines groups show ?thesis
    by (simp add: chunk_eq_groups with_newlines_def)
qed

text \<open>
  The titles in the loop over the chunks, which no run reaches. The loop leaves the
  number out when \<open>i = 1\<close> and \<open>len(body) \<le> 1500\<close>, while \<open>chunk\<close> counts a line feed after
  every line, the last one too. Called with a body of exactly 1500 characters in two
  lines (1498 letters \<open>a\<close>, a line feed, and the letter \<open>b\<close>), the loop posts two chunks, the
  first under the bare label and the second under the label with \<open>(2)\<close>.
\<close>

lemma title_suffix_off_by_one:
  "length (replicate 1498 97 @ [10, 98::nat]) = 1500
   \<and> chunk (replicate 1498 97 @ [10, 98]) 1500 = [replicate 1498 97, [98]]
   \<and> post_titles (events (push_chunks one_entry_env example_config
        (replicate 1498 97 @ [10, 98]) 1 (chunk (replicate 1498 97 @ [10, 98]) 1500) fresh_world)) =
      [ascii ''2024-05-01'' @ update_label,
       ascii ''2024-05-01'' @ update_label @ ascii '' (2)'']"
proof -
  have topic: "NTFY_TOPIC example_config = Some (ascii ''tax'')" "ascii ''tax'' \<noteq> []"
    by (simp_all add: example_config_def ascii_def)
  have enc: "\<forall>ch\<in>set [replicate 1498 97, [98]]. \<forall>c\<in>set ch. \<not> surrogate c"
    by (simp add: surrogate_def)
  have titles: "map (chunk_title (today one_entry_env) (replicate 1498 97 @ [10, 98])) [1..<1 + length [replicate 1498 (97::nat), [98]]] =
      [ascii ''2024-05-01'' @ update_label, ascii ''2024-05-01'' @ update_label @ ascii '' (2)'']"
    by (simp add: chunk_title_def one_entry_env_def offline_env_def upt_rec str_nat.simps ascii_def)
  have "events fresh_world = []" by (simp add: fresh_world_def)
  with push_chunks_titles [OF topic enc, of one_entry_env "replicate 1498 97 @ [10, 98]" 1 fresh_world]
    titles body_1500_chunks
  show ?thesis by simp
qed

end
